theory Spec2Isabelle
  imports Complex_Main "HOL-Library.AList" "HOL-Library.Sublist"
begin

section \<open>Python values used by the task system\<close>

text \<open>
  The repository is a Python program that keeps its state in a Redis broker.
  Every value stored in Redis is a string, so two conversions of the Python
  runtime appear in the code paths verified here: \<open>str\<close> of an integer
  (how redis-py encodes an \<open>int\<close> argument and how \<open>add_task\<close> builds
  the hash) and \<open>int\<close> of a string (how \<open>mark_failed\<close> reads
  \<open>retry_count\<close> back).

  Exceptions are values: the class of the exception is kept, the formatted
  message is not.
\<close>

datatype py_error = ValueError | TypeError | AttributeError

definition digit_char :: "nat \<Rightarrow> char" where
  "digit_char d = ''0123456789'' ! d"

fun digits_of_nat :: "nat \<Rightarrow> string" where
  "digits_of_nat n =
     (if n < 10 then [digit_char n]
      else digits_of_nat (n div 10) @ [digit_char (n mod 10)])"

declare digits_of_nat.simps [simp del]

definition py_str_int :: "int \<Rightarrow> string" where
  \<comment> \<open>\<open>str(i)\<close> for a Python \<open>int\<close>.\<close>
  "py_str_int i =
     (if i < 0 then CHR ''-'' # digits_of_nat (nat (- i)) else digits_of_nat (nat i))"

definition digit_val :: "char \<Rightarrow> nat option" where
  "digit_val c =
     (let n = (of_char c :: nat) in if 48 \<le> n \<and> n \<le> 57 then Some (n - 48) else None)"

fun nat_of_digits :: "nat \<Rightarrow> string \<Rightarrow> nat option" where
  "nat_of_digits acc [] = Some acc"
| "nat_of_digits acc (c # cs) =
     (case digit_val c of None \<Rightarrow> None | Some d \<Rightarrow> nat_of_digits (10 * acc + d) cs)"

definition py_int :: "string \<Rightarrow> int option" where
  \<comment> \<open>\<open>int(s)\<close> for a string: an optional sign and at least one decimal digit;
      \<open>None\<close> stands for the \<open>ValueError\<close>. (Python also accepts surrounding
      blanks and underscores between digits; no string written by this program has
      them, and they are read as errors here.)\<close>
  "py_int s =
     (case s of
        [] \<Rightarrow> None
      | c # cs \<Rightarrow>
          if c = CHR ''-'' then
            (if cs = [] then None else map_option (\<lambda>n. - int n) (nat_of_digits 0 cs))
          else if c = CHR ''+'' then
            (if cs = [] then None else map_option int (nat_of_digits 0 cs))
          else map_option int (nat_of_digits 0 s))"


section \<open>The Redis operations the code calls\<close>

text \<open>
  A Redis list is a list of strings whose head is the left end. A Redis hash is
  a finite map from field names to strings, kept as an association list with
  distinct keys; a key that holds no hash reads as the empty hash, which is what
  \<open>HGETALL\<close> returns for it.
\<close>

type_synonym rlist = "string list"
type_synonym rhash = "(string \<times> string) list"

definition rpush :: "rlist \<Rightarrow> string \<Rightarrow> rlist" where
  \<comment> \<open>\<open>RPUSH\<close>: append at the right end (the tail).\<close>
  "rpush l v = l @ [v]"

definition lpush :: "rlist \<Rightarrow> string \<Rightarrow> rlist" where
  \<comment> \<open>\<open>LPUSH\<close>: prepend at the left end (the head).\<close>
  "lpush l v = v # l"

definition lrem1 :: "rlist \<Rightarrow> string \<Rightarrow> nat \<times> rlist" where
  \<comment> \<open>\<open>LREM key 1 v\<close>: remove the first occurrence of \<open>v\<close> counting from the
      head; the reply is the number of removed elements.\<close>
  "lrem1 l v = (if v \<in> set l then 1 else 0, remove1 v l)"

definition brpoplpush :: "rlist \<Rightarrow> rlist \<Rightarrow> string option \<times> rlist \<times> rlist" where
  \<comment> \<open>\<open>BRPOPLPUSH src dst timeout\<close> with no other client writing: pop the
      right end of \<open>src\<close> and push it on the left end of \<open>dst\<close>; on an empty
      \<open>src\<close> the call times out and replies nil.\<close>
  "brpoplpush src dst =
     (if src = [] then (None, src, dst)
      else (Some (last src), butlast src, lpush dst (last src)))"

definition hset :: "rhash \<Rightarrow> string \<Rightarrow> string \<Rightarrow> nat \<times> rhash" where
  \<comment> \<open>\<open>HSET key field value\<close>: the reply is the number of fields that were
      added (0 when the field existed and was overwritten).\<close>
  "hset h f v = (if f \<in> fst ` set h then 0 else 1, AList.update f v h)"

definition hset_mapping :: "rhash \<Rightarrow> (string \<times> string) list \<Rightarrow> rhash" where
  \<comment> \<open>\<open>HSET key mapping={...}\<close>: every pair is written, other fields stay.\<close>
  "hset_mapping h kvs = foldl (\<lambda>h' (f, v). snd (hset h' f v)) h kvs"

definition hget :: "rhash \<Rightarrow> string \<Rightarrow> string option" where
  \<comment> \<open>\<open>dict.get(field)\<close> on the result of \<open>HGETALL\<close>.\<close>
  "hget h f = map_of h f"


section \<open>RedisTaskQueueV2\<close>

text \<open>
  The state of a queue is what Redis holds under the queue's keys: the five
  lists named by \<open>pending_key\<close>, \<open>processing_key\<close>, \<open>completed_key\<close>,
  \<open>failed_key\<close> and \<open>dead_letter_key\<close>, and one hash per task under
  \<open>{queue_name}:task:{task_id}\<close>, here indexed by the task id. The object's
  own field \<open>max_retries\<close> is part of the record.

  Clock readings and the submitted data are parameters of the operations:
  \<open>ms\<close> is \<open>int(time.time() * 1000)\<close>, \<open>now\<close> is
  \<open>datetime.utcnow().isoformat()\<close>, \<open>task_data\<close> is
  \<open>json.dumps\<close> of the submitted dictionary.
\<close>

record queue =
  max_retries :: int
  pending_key :: rlist
  processing_key :: rlist
  completed_key :: rlist
  failed_key :: rlist
  dead_letter_key :: rlist
  task_key :: "string \<Rightarrow> rhash"

definition new_queue :: "int \<Rightarrow> queue" where
  \<comment> \<open>\<open>__init__\<close> against an empty Redis database.\<close>
  "new_queue mr =
     \<lparr>max_retries = mr, pending_key = [], processing_key = [], completed_key = [],
      failed_key = [], dead_letter_key = [], task_key = (\<lambda>_. [])\<rparr>"

definition add_task :: "int \<Rightarrow> string \<Rightarrow> string \<Rightarrow> queue \<Rightarrow> string \<times> queue" where
  "add_task ms now task_data q =
     (let task_id = ''task-'' @ py_str_int ms;
          task = [(''task_id'', task_id), (''data'', task_data), (''status'', ''pending''),
                  (''created_at'', now), (''retry_count'', py_str_int 0),
                  (''last_error'', ''None'')];
          q1 = q\<lparr>task_key := (task_key q)(task_id := hset_mapping (task_key q task_id) task)\<rparr>;
          q2 = q1\<lparr>pending_key := rpush (pending_key q1) task_id\<rparr>
      in (task_id, q2))"

definition get_task :: "string \<Rightarrow> string \<Rightarrow> queue \<Rightarrow> rhash option \<times> queue" where
  \<comment> \<open>The returned dictionary is the stored hash as read before the metadata
      update (the source also decodes each value that is valid JSON).\<close>
  "get_task worker_id now q =
     (case brpoplpush (pending_key q) (processing_key q) of
        (None, _, _) \<Rightarrow> (None, q)
      | (Some task_id, src, dst) \<Rightarrow>
          let q1 = q\<lparr>pending_key := src, processing_key := dst\<rparr> in
          if task_id = [] then (None, q1)
          else
            let task_data = task_key q1 task_id in
            if task_data = [] then
              (None, q1\<lparr>processing_key := snd (lrem1 (processing_key q1) task_id)\<rparr>)
            else
              let h1 = snd (hset task_data ''status'' ''processing'');
                  h2 = snd (hset h1 ''worker_id'' worker_id);
                  h3 = snd (hset h2 ''started_at'' now)
              in (Some task_data, q1\<lparr>task_key := (task_key q1)(task_id := h3)\<rparr>))"

definition mark_completed :: "string \<Rightarrow> string option \<Rightarrow> string \<Rightarrow> queue \<Rightarrow> queue" where
  \<comment> \<open>\<open>result\<close> is \<open>Some\<close> of the JSON text of a non-empty result and
      \<open>None\<close> for a result that is \<open>None\<close> or empty (\<open>if result:\<close>).\<close>
  "mark_completed task_id result now q =
     (let q1 = q\<lparr>processing_key := snd (lrem1 (processing_key q) task_id)\<rparr>;
          h1 = snd (hset (task_key q1 task_id) ''status'' ''completed'');
          h2 = snd (hset h1 ''completed_at'' now);
          h3 = (case result of None \<Rightarrow> h2 | Some r \<Rightarrow> snd (hset h2 ''result'' r))
      in q1\<lparr>task_key := (task_key q1)(task_id := h3),
             completed_key := rpush (completed_key q1) task_id\<rparr>)"

definition mark_failed ::
    "string \<Rightarrow> string \<Rightarrow> bool \<Rightarrow> string \<Rightarrow> queue \<Rightarrow> py_error option \<times> queue" where
  \<comment> \<open>The first component is the exception that ends the call, if any: \<open>int\<close>
      of a stored \<open>retry_count\<close> that is not a number, raised after the id has
      left the processing list.\<close>
  "mark_failed task_id error_message should_retry now q =
     (let q1 = q\<lparr>processing_key := snd (lrem1 (processing_key q) task_id)\<rparr>;
          task_data = task_key q1 task_id
      in case (case hget task_data ''retry_count'' of None \<Rightarrow> Some 0 | Some s \<Rightarrow> py_int s) of
           None \<Rightarrow> (Some ValueError, q1)
         | Some rc \<Rightarrow>
             let retry_count = rc + 1;
                 h1 = snd (hset task_data ''retry_count'' (py_str_int retry_count));
                 h2 = snd (hset h1 ''last_error'' error_message);
                 h3 = snd (hset h2 ''failed_at'' now)
             in if should_retry \<and> retry_count < max_retries q1 then
                  (None, q1\<lparr>task_key := (task_key q1)(task_id := snd (hset h3 ''status'' ''failed'')),
                              pending_key := rpush (pending_key q1) task_id\<rparr>)
                else
                  (None, q1\<lparr>task_key := (task_key q1)(task_id := snd (hset h3 ''status'' ''dead'')),
                              dead_letter_key := rpush (dead_letter_key q1) task_id\<rparr>))"

definition retry_dead_letter_task :: "string \<Rightarrow> queue \<Rightarrow> queue" where
  "retry_dead_letter_task task_id q =
     (let (removed, dl) = lrem1 (dead_letter_key q) task_id;
          q1 = q\<lparr>dead_letter_key := dl\<rparr>
      in if removed \<noteq> 0 then
           let h1 = snd (hset (task_key q1 task_id) ''retry_count'' (py_str_int 0));
               h2 = snd (hset h1 ''status'' ''pending'')
           in q1\<lparr>task_key := (task_key q1)(task_id := h2),
                  pending_key := rpush (pending_key q1) task_id\<rparr>
         else q1)"

definition claimed_id :: "rhash option \<Rightarrow> string option" where
  \<comment> \<open>The \<open>task_id\<close> entry of what \<open>get_task\<close> returned.\<close>
  "claimed_id t = (case t of None \<Rightarrow> None | Some h \<Rightarrow> hget h ''task_id'')"


section \<open>Tasks at rest\<close>

text \<open>
  The states a queue reaches from an empty database when it is driven the way
  the worker loop drives it: tasks are submitted with stamps that are not in use
  yet, workers claim, and a worker reports completion or failure only for an id
  that is in the processing list. \<open>lists_holding\<close> names the lists an id is
  a member of, and \<open>list_of_status\<close> is the list in which the code keeps a
  task of a given status: a task waiting for its retry has the status
  \<open>failed\<close> and sits in the pending list, and the list under
  \<open>failed_key\<close> is never written.
\<close>

definition task_status :: "queue \<Rightarrow> string \<Rightarrow> string option" where
  "task_status q t = hget (task_key q t) ''status''"

definition statuses :: "string list" where
  "statuses = [''pending'', ''processing'', ''completed'', ''failed'', ''dead'']"

definition queue_lists :: "queue \<Rightarrow> (string \<times> rlist) list" where
  "queue_lists q =
     [(''pending'', pending_key q), (''processing'', processing_key q),
      (''completed'', completed_key q), (''failed'', failed_key q),
      (''dead_letter'', dead_letter_key q)]"

definition lists_holding :: "queue \<Rightarrow> string \<Rightarrow> string list" where
  "lists_holding q t = map fst (filter (\<lambda>(n, l). t \<in> set l) (queue_lists q))"

definition list_of_status :: "string \<Rightarrow> string" where
  "list_of_status st =
     (if st = ''pending'' \<or> st = ''failed'' then ''pending''
      else if st = ''dead'' then ''dead_letter'' else st)"

inductive reachable :: "queue \<Rightarrow> bool" where
  init: "reachable (new_queue mr)"
| add: "reachable q \<Longrightarrow> task_key q (''task-'' @ py_str_int ms) = [] \<Longrightarrow>
        reachable (snd (add_task ms now task_data q))"
| claim: "reachable q \<Longrightarrow> reachable (snd (get_task worker_id now q))"
| complete: "reachable q \<Longrightarrow> task_id \<in> set (processing_key q) \<Longrightarrow>
        reachable (mark_completed task_id result now q)"
| fail: "reachable q \<Longrightarrow> task_id \<in> set (processing_key q) \<Longrightarrow>
        reachable (snd (mark_failed task_id error_message should_retry now q))"
| retry_dead: "reachable q \<Longrightarrow> reachable (retry_dead_letter_task task_id q)"


text \<open>
  The invariant of the reachable states, in three parts: every task hash carries
  one of the five statuses and a \<open>retry_count\<close> that \<open>str\<close> wrote; an id is
  in a list exactly when its task has a status kept there; the lists have no
  repetition, the failed list is empty and the empty string is no task id.
\<close>

definition inv_fields :: "queue \<Rightarrow> bool" where
  "inv_fields q \<longleftrightarrow>
     (\<forall>t. task_key q t \<noteq> [] \<longrightarrow>
        (\<exists>st. task_status q t = Some st \<and> st \<in> set statuses) \<and>
        (\<exists>n. hget (task_key q t) ''retry_count'' = Some (py_str_int n)))"

definition inv_lists :: "queue \<Rightarrow> bool" where
  "inv_lists q \<longleftrightarrow>
     (\<forall>t. (t \<in> set (pending_key q) \<longleftrightarrow>
            task_status q t = Some ''pending'' \<or> task_status q t = Some ''failed'') \<and>
          (t \<in> set (processing_key q) \<longleftrightarrow> task_status q t = Some ''processing'') \<and>
          (t \<in> set (completed_key q) \<longleftrightarrow> task_status q t = Some ''completed'') \<and>
          (t \<in> set (dead_letter_key q) \<longleftrightarrow> task_status q t = Some ''dead''))"

definition inv_distinct :: "queue \<Rightarrow> bool" where
  "inv_distinct q \<longleftrightarrow>
     task_key q [] = [] \<and> failed_key q = [] \<and>
     distinct (pending_key q) \<and> distinct (processing_key q) \<and>
     distinct (completed_key q) \<and> distinct (dead_letter_key q)"

definition queue_inv :: "queue \<Rightarrow> bool" where
  "queue_inv q \<longleftrightarrow> inv_fields q \<and> inv_lists q \<and> inv_distinct q"


section \<open>WorkerRegistry\<close>

text \<open>
  The registry keeps one hash per worker under
  \<open>worker_registry:workers:{worker_id}\<close>. The database is an association list
  from keys to hashes, so that \<open>KEYS\<close> can enumerate it; the order of the
  enumeration is the order of the list.

  Clock readings are parameters: \<open>now\<close> is \<open>str(time.time())\<close>, the text that
  is stored, \<open>current_time\<close> is the reading of \<open>time.time()\<close> as a real
  number, and \<open>py_float\<close> is the runtime's \<open>float\<close> on strings (\<open>None\<close>
  for its \<open>ValueError\<close>). The subtraction and the comparison of readings are
  those of the real numbers.

  Values of mixed Python types, as in the dictionaries \<open>get_active_workers\<close>
  returns and in the filter descriptors read from JSON, are \<open>pyval\<close>s: \<open>None\<close>,
  a boolean, an \<open>int\<close>, a \<open>float\<close>, a string, or a list or dictionary (whose
  contents are not represented). A \<open>float\<close> is finite, with its value as a real
  number under \<open>PFloat\<close>, or one of \<open>inf\<close>, \<open>-inf\<close> and \<open>nan\<close>.
\<close>

datatype pyval =
  PNone | PBool bool | PInt int | PFloat real | PInf | PNegInf | PNaN | PStr string | PContainer

type_synonym redis_db = "(string \<times> rhash) list"

definition hgetall :: "redis_db \<Rightarrow> string \<Rightarrow> rhash" where
  \<comment> \<open>\<open>HGETALL key\<close>: the empty hash for a key that does not exist.\<close>
  "hgetall db key = (case map_of db key of None \<Rightarrow> [] | Some h \<Rightarrow> h)"

definition redis_hset :: "redis_db \<Rightarrow> string \<Rightarrow> string \<Rightarrow> string \<Rightarrow> nat \<times> redis_db" where
  \<comment> \<open>\<open>HSET key field value\<close> on the database: the key is created when it does
      not exist.\<close>
  "redis_hset db key f v =
     (let (n, h) = hset (hgetall db key) f v in (n, AList.update key h db))"

definition redis_keys :: "redis_db \<Rightarrow> string \<Rightarrow> string list" where
  \<comment> \<open>\<open>KEYS pre*\<close> for a prefix without glob characters.\<close>
  "redis_keys db pre = filter (prefix pre) (map fst db)"

record worker_registry =
  heartbeat_timeout :: int
  redis :: redis_db

definition registry_key :: string where
  "registry_key = ''worker_registry:workers''"

definition worker_key :: "string \<Rightarrow> string" where
  "worker_key worker_id = registry_key @ '':'' @ worker_id"

definition new_registry :: "int \<Rightarrow> worker_registry" where
  \<comment> \<open>\<open>__init__\<close> against an empty Redis database.\<close>
  "new_registry timeout = \<lparr>heartbeat_timeout = timeout, redis = []\<rparr>"

definition register_worker ::
    "string \<Rightarrow> (string \<times> string) list \<Rightarrow> string \<Rightarrow> string \<Rightarrow> worker_registry \<Rightarrow> bool \<times> worker_registry" where
  \<comment> \<open>\<open>metadata\<close> holds the optional entries with their values as \<open>str\<close>
      writes them; \<open>now_iso\<close> is \<open>datetime.utcnow().isoformat()\<close>.\<close>
  "register_worker worker_id metadata now_iso now r =
     (let worker_info = foldl (\<lambda>d (k, v). AList.update k v d)
            [(''worker_id'', worker_id), (''registered_at'', now_iso),
             (''last_heartbeat'', now), (''status'', ''active'')] metadata;
          db = foldl (\<lambda>db (k, v). snd (redis_hset db (worker_key worker_id) k v))
            (redis r) worker_info
      in (True, r\<lparr>redis := db\<rparr>))"

definition is_not_None :: "'a option \<Rightarrow> bool" where
  "is_not_None x = (x \<noteq> None)"

definition send_heartbeat :: "string \<Rightarrow> string \<Rightarrow> worker_registry \<Rightarrow> bool \<times> worker_registry" where
  \<comment> \<open>\<open>success\<close> is the reply of \<open>HSET\<close>; the result is \<open>success is not None\<close>.\<close>
  "send_heartbeat worker_id now r =
     (let (n, db) = redis_hset (redis r) (worker_key worker_id) ''last_heartbeat'' now;
          success = Some n
      in (is_not_None success, r\<lparr>redis := db\<rparr>))"

definition py_round2 :: "real \<Rightarrow> real" where
  \<comment> \<open>\<open>round(x, 2)\<close>: to two decimals, a tie to the even neighbour.\<close>
  "py_round2 x =
     (let y = x * 100; f = \<lfloor>y\<rfloor>; d = y - of_int f
      in of_int (if d < 1 / 2 then f else if 1 / 2 < d then f + 1
                 else if even f then f else f + 1) / 100)"

definition worker_view :: "rhash \<Rightarrow> real \<Rightarrow> bool \<Rightarrow> (string \<times> pyval) list" where
  \<comment> \<open>The dictionary read from Redis with the two entries the registry adds to
      it before returning it.\<close>
  "worker_view worker_info time_since_heartbeat alive =
     AList.update ''is_alive'' (PBool alive)
       (AList.update ''time_since_heartbeat'' (PFloat (py_round2 time_since_heartbeat))
          (map (\<lambda>(k, v). (k, PStr v)) worker_info))"

fun active_loop ::
    "(string \<Rightarrow> real option) \<Rightarrow> real \<Rightarrow> worker_registry \<Rightarrow> string list \<Rightarrow>
     (string \<times> pyval) list list \<Rightarrow> py_error + (string \<times> pyval) list list" where
  "active_loop py_float current_time r [] active_workers = Inr active_workers"
| "active_loop py_float current_time r (key # keys) active_workers =
     (let worker_info = hgetall (redis r) key in
      if worker_info = [] then active_loop py_float current_time r keys active_workers
      else
        case (case hget worker_info ''last_heartbeat'' of None \<Rightarrow> Some 0 | Some s \<Rightarrow> py_float s) of
          None \<Rightarrow> Inl ValueError
        | Some last_heartbeat \<Rightarrow>
            let time_since_heartbeat = current_time - last_heartbeat in
            if time_since_heartbeat < real_of_int (heartbeat_timeout r) then
              active_loop py_float current_time r keys
                (active_workers @ [worker_view worker_info time_since_heartbeat True])
            else active_loop py_float current_time r keys active_workers)"

definition get_active_workers ::
    "(string \<Rightarrow> real option) \<Rightarrow> real \<Rightarrow> worker_registry \<Rightarrow> py_error + (string \<times> pyval) list list" where
  "get_active_workers py_float current_time r =
     active_loop py_float current_time r (redis_keys (redis r) (registry_key @ '':'')) []"

definition heartbeat_readable :: "(string \<Rightarrow> real option) \<Rightarrow> worker_registry \<Rightarrow> string \<Rightarrow> bool" where
  "heartbeat_readable py_float r key =
     (case hget (hgetall (redis r) key) ''last_heartbeat'' of
        None \<Rightarrow> True | Some s \<Rightarrow> py_float s \<noteq> None)"

definition heartbeats_readable :: "(string \<Rightarrow> real option) \<Rightarrow> worker_registry \<Rightarrow> bool" where
  \<comment> \<open>Every record under the registry's key prefix holds a \<open>last_heartbeat\<close> that
      \<open>float\<close> accepts, or none.\<close>
  "heartbeats_readable py_float r =
     list_all (heartbeat_readable py_float r) (redis_keys (redis r) (registry_key @ '':''))"


section \<open>Filters, FilterPipeline and FilterFactory\<close>

text \<open>
  The four filters are the values of \<open>base_filter\<close>. What a filter does to an
  image is the imaging library's work (PIL): the library is a parameter, a record
  of the operations the filters call, each returning the new image or the message
  of the exception it raises. The image type is left open.

  A parameter of a constructor is the Python value the caller gave, a number or
  not: the constructors compare it with \<open>0\<close> and \<open>5.0\<close> and keep it as it is.
  The per-step and total times in the statistics are wall-clock readings and are
  left out.
\<close>

definition py_lt :: "pyval \<Rightarrow> real \<Rightarrow> py_error + bool" where
  \<comment> \<open>\<open>v < c\<close> for a Python object \<open>v\<close> and a finite number \<open>c\<close>: numbers and
      booleans compare by value, every comparison with \<open>nan\<close> is false, and a
      string, \<open>None\<close>, a list or a dictionary raises \<open>TypeError\<close>.\<close>
  "py_lt v c =
     (case v of
        PInt i \<Rightarrow> Inr (real_of_int i < c)
      | PFloat x \<Rightarrow> Inr (x < c)
      | PInf \<Rightarrow> Inr False
      | PNegInf \<Rightarrow> Inr True
      | PNaN \<Rightarrow> Inr False
      | PBool b \<Rightarrow> Inr ((if b then 1 else 0) < c)
      | PStr s \<Rightarrow> Inl TypeError
      | PNone \<Rightarrow> Inl TypeError
      | PContainer \<Rightarrow> Inl TypeError)"

definition py_gt :: "pyval \<Rightarrow> real \<Rightarrow> py_error + bool" where
  \<comment> \<open>\<open>v > c\<close>, likewise.\<close>
  "py_gt v c =
     (case v of
        PInt i \<Rightarrow> Inr (c < real_of_int i)
      | PFloat x \<Rightarrow> Inr (c < x)
      | PInf \<Rightarrow> Inr True
      | PNegInf \<Rightarrow> Inr False
      | PNaN \<Rightarrow> Inr False
      | PBool b \<Rightarrow> Inr (c < (if b then 1 else 0))
      | PStr s \<Rightarrow> Inl TypeError
      | PNone \<Rightarrow> Inl TypeError
      | PContainer \<Rightarrow> Inl TypeError)"

datatype base_filter =
  BlurFilter pyval | BrightnessFilter pyval | EdgesFilter | GrayscaleFilter

definition BlurFilter_init :: "pyval \<Rightarrow> py_error + base_filter" where
  "BlurFilter_init radius =
     (case py_lt radius 0 of
        Inl e \<Rightarrow> Inl e
      | Inr negative \<Rightarrow> if negative then Inl ValueError else Inr (BlurFilter radius))"

definition BrightnessFilter_init :: "pyval \<Rightarrow> py_error + bool \<times> base_filter" where
  "BrightnessFilter_init factor =
     (case py_lt factor 0 of
        Inl e \<Rightarrow> Inl e
      | Inr negative \<Rightarrow>
          if negative then Inl ValueError
          else (case py_gt factor 5 of
                  Inl e \<Rightarrow> Inl e
                | Inr too_high \<Rightarrow> Inr (too_high, BrightnessFilter factor)))"

definition BlurFilter_default :: "py_error + base_filter" where
  "BlurFilter_default = BlurFilter_init (PInt 2)"

definition BrightnessFilter_default :: "py_error + bool \<times> base_filter" where
  "BrightnessFilter_default = BrightnessFilter_init (PFloat (3 / 2))"

record 'img pil =
  gaussian_blur :: "pyval \<Rightarrow> 'img \<Rightarrow> string + 'img"
  enhance_brightness :: "pyval \<Rightarrow> 'img \<Rightarrow> string + 'img"
  find_edges :: "'img \<Rightarrow> string + 'img"
  convert_L :: "'img \<Rightarrow> string + 'img"
  image_save :: "string \<Rightarrow> nat \<Rightarrow> string \<Rightarrow> 'img \<Rightarrow> string option"

fun filter_apply :: "'img pil \<Rightarrow> base_filter \<Rightarrow> 'img \<Rightarrow> string + 'img" where
  "filter_apply lib (BlurFilter radius) img = gaussian_blur lib radius img"
| "filter_apply lib (BrightnessFilter factor) img = enhance_brightness lib factor img"
| "filter_apply lib EdgesFilter img = find_edges lib img"
| "filter_apply lib GrayscaleFilter img = convert_L lib img"

fun class_name :: "base_filter \<Rightarrow> string" where
  "class_name (BlurFilter radius) = ''BlurFilter''"
| "class_name (BrightnessFilter factor) = ''BrightnessFilter''"
| "class_name EdgesFilter = ''EdgesFilter''"
| "class_name GrayscaleFilter = ''GrayscaleFilter''"

record filter_pipeline =
  filters :: "base_filter list"
  stop_on_error :: bool
  save_intermediate :: bool

definition FilterPipeline_init :: "base_filter list \<Rightarrow> bool \<Rightarrow> bool \<Rightarrow> py_error + filter_pipeline" where
  "FilterPipeline_init fs stop save =
     (if fs = [] then Inl ValueError
      else Inr \<lparr>filters = fs, stop_on_error = stop, save_intermediate = save\<rparr>)"

record step_stats =
  step_name :: string
  step_index :: nat
  step_status :: string
  step_error :: "string option"

record pipeline_stats =
  filter_stats :: "step_stats list"
  successful :: nat
  failed :: nat
  total_filters :: nat

record 'img loop_state =
  result_image :: 'img
  stats_so_far :: "step_stats list"
  successful_count :: nat
  failed_count :: nat

definition success_entry :: "nat \<Rightarrow> string \<Rightarrow> step_stats" where
  "success_entry i filter_name =
     \<lparr>step_name = filter_name, step_index = i, step_status = ''success'', step_error = None\<rparr>"

definition failed_entry :: "nat \<Rightarrow> string \<Rightarrow> string \<Rightarrow> step_stats" where
  "failed_entry i filter_name e =
     \<lparr>step_name = filter_name, step_index = i, step_status = ''failed'', step_error = Some e\<rparr>"

text \<open>
  Saving an intermediate image (\<open>os.makedirs\<close>, then \<open>Image.save\<close> to
  \<open>step_{i:02d}_{name}.jpg\<close> under \<open>output_dir\<close>) happens when
  \<open>save_intermediate and output_dir\<close> is true; its outcome is the message of the
  exception it raises, if any. What it writes to the file system is not part of
  the state.
\<close>

definition save_step ::
    "'img pil \<Rightarrow> filter_pipeline \<Rightarrow> string option \<Rightarrow> nat \<Rightarrow> string \<Rightarrow> 'img \<Rightarrow> string option" where
  "save_step lib p output_dir i filter_name img =
     (case output_dir of
        None \<Rightarrow> None
      | Some d \<Rightarrow>
          if save_intermediate p \<and> d \<noteq> [] then image_save lib d i filter_name img
          else None)"

fun apply_loop ::
    "'img pil \<Rightarrow> filter_pipeline \<Rightarrow> string option \<Rightarrow> nat \<Rightarrow> base_filter list \<Rightarrow>
     'img loop_state \<Rightarrow> 'img loop_state" where
  "apply_loop lib p output_dir i [] s = s"
| "apply_loop lib p output_dir i (filter_obj # rest) s =
     (let filter_name = class_name filter_obj in
      case filter_apply lib filter_obj (result_image s) of
        Inr img \<Rightarrow>
          let s1 = s\<lparr>result_image := img,
                     stats_so_far := stats_so_far s @ [success_entry i filter_name],
                     successful_count := successful_count s + 1\<rparr>
          in (case save_step lib p output_dir i filter_name img of
                None \<Rightarrow> apply_loop lib p output_dir (i + 1) rest s1
              | Some e \<Rightarrow>
                  let s2 = s1\<lparr>stats_so_far := stats_so_far s1 @ [failed_entry i filter_name e],
                              failed_count := failed_count s1 + 1\<rparr>
                  in if stop_on_error p then s2
                     else apply_loop lib p output_dir (i + 1) rest s2)
      | Inl e \<Rightarrow>
          let s1 = s\<lparr>stats_so_far := stats_so_far s @ [failed_entry i filter_name e],
                     failed_count := failed_count s + 1\<rparr>
          in if stop_on_error p then s1
             else apply_loop lib p output_dir (i + 1) rest s1)"

definition pipeline_apply ::
    "'img pil \<Rightarrow> filter_pipeline \<Rightarrow> 'img \<Rightarrow> string option \<Rightarrow> 'img option \<times> pipeline_stats" where
  "pipeline_apply lib p img output_dir =
     (let s = apply_loop lib p output_dir 0 (filters p)
                \<lparr>result_image = img, stats_so_far = [], successful_count = 0,
                 failed_count = 0\<rparr>;
          stats = \<lparr>filter_stats = stats_so_far s, successful = successful_count s,
                   failed = failed_count s, total_filters = length (filters p)\<rparr>
      in if successful_count s = 0 then (None, stats) else (Some (result_image s), stats))"

text \<open>
  The walk over the filters as the specification words it, to be compared with
  the loop of \<open>apply\<close>: the filters are taken in order; a filter whose
  \<open>apply\<close> raises gets a failed entry, and then the walk halts under
  \<open>stop_on_error\<close> and otherwise goes on with the working image unchanged; a
  filter that succeeds replaces the working image and gets a success entry. A
  failure to save the intermediate image comes after the success entry and is
  treated as the loop treats it: a failed entry for the same step, and the new
  working image is kept.
\<close>

fun spec_walk ::
    "'img pil \<Rightarrow> bool \<Rightarrow> (nat \<Rightarrow> string \<Rightarrow> 'img \<Rightarrow> string option) \<Rightarrow> nat \<Rightarrow> base_filter list \<Rightarrow>
     'img \<Rightarrow> 'img \<times> step_stats list" where
  "spec_walk lib stop save i [] img = (img, [])"
| "spec_walk lib stop save i (f # fs) img =
     (case filter_apply lib f img of
        Inl e \<Rightarrow>
          if stop then (img, [failed_entry i (class_name f) e])
          else (let (r, es) = spec_walk lib stop save (i + 1) fs img
                in (r, failed_entry i (class_name f) e # es))
      | Inr img' \<Rightarrow>
          (case save i (class_name f) img' of
             None \<Rightarrow>
               (let (r, es) = spec_walk lib stop save (i + 1) fs img'
                in (r, success_entry i (class_name f) # es))
           | Some e \<Rightarrow>
               if stop then
                 (img', [success_entry i (class_name f), failed_entry i (class_name f) e])
               else (let (r, es) = spec_walk lib stop save (i + 1) fs img'
                     in (r, success_entry i (class_name f) # failed_entry i (class_name f) e # es))))"

definition count_status :: "string \<Rightarrow> step_stats list \<Rightarrow> nat" where
  "count_status st es = length (filter (\<lambda>e. step_status e = st) es)"

text \<open>
  Applying the filters' own \<open>apply\<close> one after the other, each on the result of
  the one before; an exception ends the composition.
\<close>

fun compose_apply :: "'img pil \<Rightarrow> base_filter list \<Rightarrow> 'img \<Rightarrow> string + 'img" where
  "compose_apply lib [] img = Inr img"
| "compose_apply lib (f # fs) img =
     (case filter_apply lib f img of Inl e \<Rightarrow> Inl e | Inr img' \<Rightarrow> compose_apply lib fs img')"

text \<open>
  FilterFactory. A descriptor is a dictionary from parameter names to values. The
  registry maps a name to the class, here to the call \<open>filter_class(**kwargs)\<close>:
  a keyword the constructor does not have is a \<open>TypeError\<close>. \<open>lower\<close> acts
  on ASCII letters, which is all the registered names contain.
\<close>

definition char_lower :: "char \<Rightarrow> char" where
  "char_lower c =
     (let n = (of_char c :: nat) in if 65 \<le> n \<and> n \<le> 90 then char_of (n + 32) else c)"

definition py_lower :: "string \<Rightarrow> string" where
  "py_lower s = map char_lower s"

type_synonym config = "(string \<times> pyval) list"

definition construct_BlurFilter :: "config \<Rightarrow> py_error + base_filter" where
  "construct_BlurFilter kwargs =
     (if \<not> list_all (\<lambda>(k, v). k = ''radius'') kwargs then Inl TypeError
      else case map_of kwargs ''radius'' of
             None \<Rightarrow> BlurFilter_default
           | Some radius \<Rightarrow> BlurFilter_init radius)"

definition construct_BrightnessFilter :: "config \<Rightarrow> py_error + base_filter" where
  "construct_BrightnessFilter kwargs =
     (if \<not> list_all (\<lambda>(k, v). k = ''factor'') kwargs then Inl TypeError
      else map_sum id snd
             (case map_of kwargs ''factor'' of
                None \<Rightarrow> BrightnessFilter_default
              | Some factor \<Rightarrow> BrightnessFilter_init factor))"

definition construct_EdgesFilter :: "config \<Rightarrow> py_error + base_filter" where
  "construct_EdgesFilter kwargs = (if kwargs = [] then Inr EdgesFilter else Inl TypeError)"

definition construct_GrayscaleFilter :: "config \<Rightarrow> py_error + base_filter" where
  "construct_GrayscaleFilter kwargs = (if kwargs = [] then Inr GrayscaleFilter else Inl TypeError)"

definition FILTER_REGISTRY :: "(string \<times> (config \<Rightarrow> py_error + base_filter)) list" where
  "FILTER_REGISTRY =
     [(''blur'', construct_BlurFilter), (''brightness'', construct_BrightnessFilter),
      (''edges'', construct_EdgesFilter), (''grayscale'', construct_GrayscaleFilter),
      (''gray'', construct_GrayscaleFilter)]"

definition create :: "string \<Rightarrow> config \<Rightarrow> py_error + base_filter" where
  "create filter_type kwargs =
     (let filter_type_lower = py_lower filter_type in
      case map_of FILTER_REGISTRY filter_type_lower of
        None \<Rightarrow> Inl ValueError
      | Some filter_class \<Rightarrow>
          (case filter_class kwargs of
             Inl e \<Rightarrow> if e = TypeError then Inl TypeError else Inl e
           | Inr filter_obj \<Rightarrow> Inr filter_obj))"

definition create_from_config :: "config \<Rightarrow> py_error + base_filter" where
  "create_from_config cfg =
     (case map_of cfg ''type'' of
        None \<Rightarrow> Inl ValueError
      | Some t \<Rightarrow>
          (case t of
             PStr filter_type \<Rightarrow> create filter_type (filter (\<lambda>(k, v). k \<noteq> ''type'') cfg)
           | PNone \<Rightarrow> Inl AttributeError
           | PBool b \<Rightarrow> Inl AttributeError
           | PInt i \<Rightarrow> Inl AttributeError
           | PFloat x \<Rightarrow> Inl AttributeError
           | PInf \<Rightarrow> Inl AttributeError
           | PNegInf \<Rightarrow> Inl AttributeError
           | PNaN \<Rightarrow> Inl AttributeError
           | PContainer \<Rightarrow> Inl AttributeError))"

fun create_loop :: "base_filter list \<Rightarrow> config list \<Rightarrow> py_error + base_filter list" where
  "create_loop fs [] = Inr fs"
| "create_loop fs (cfg # configs) =
     (case create_from_config cfg of
        Inl e \<Rightarrow> Inl ValueError
      | Inr filter_obj \<Rightarrow> create_loop (fs @ [filter_obj]) configs)"

definition create_pipeline :: "config list \<Rightarrow> bool \<Rightarrow> bool \<Rightarrow> py_error + filter_pipeline" where
  "create_pipeline configs stop save =
     (case create_loop [] configs of
        Inl e \<Rightarrow> Inl e
      | Inr fs \<Rightarrow> FilterPipeline_init fs stop save)"

text \<open>
  A small imaging library to run the pipeline on: images are strings, every
  operation appends its name, and edge detection raises.
\<close>

definition example_pil :: "string pil" where
  "example_pil =
     \<lparr>gaussian_blur = (\<lambda>radius img. Inr (img @ ''-blur'')),
      enhance_brightness = (\<lambda>factor img. Inr (img @ ''-bright'')),
      find_edges = (\<lambda>img. Inl ''cannot filter palette images''),
      convert_L = (\<lambda>img. Inr (img @ ''-gray'')),
      image_save = (\<lambda>d i n img. None)\<rparr>"


section \<open>Facts about the conversions\<close>

lemma lt10_cases: "d < 10 \<Longrightarrow> d \<in> {0, 1, 2, 3, 4, 5, 6, 7, 8, 9::nat}"
  by simp arith

lemma digit_val_digit_char: "d < 10 \<Longrightarrow> digit_val (digit_char d) = Some d"
  by (drule lt10_cases) (auto simp: digit_val_def digit_char_def)

lemma digit_char_not_sign:
  "d < 10 \<Longrightarrow> digit_char d \<noteq> CHR ''-'' \<and> digit_char d \<noteq> CHR ''+''"
  by (drule lt10_cases) (auto simp: digit_char_def)

lemma nat_of_digits_append:
  "nat_of_digits acc (xs @ ys) =
     (case nat_of_digits acc xs of None \<Rightarrow> None | Some a \<Rightarrow> nat_of_digits a ys)"
  by (induction xs arbitrary: acc) (auto split: option.splits)

lemma nat_of_digits_digits: "nat_of_digits 0 (digits_of_nat n) = Some n"
proof (induction n rule: digits_of_nat.induct)
  case (1 n)
  show ?case
  proof (cases "n < 10")
    case True
    then show ?thesis
      by (simp add: digits_of_nat.simps [of n] digit_val_digit_char)
  next
    case False
    with 1 have "nat_of_digits 0 (digits_of_nat (n div 10)) = Some (n div 10)"
      by simp
    with False show ?thesis
      by (simp add: digits_of_nat.simps [of n] nat_of_digits_append digit_val_digit_char)
  qed
qed

lemma digits_of_nat_nonempty: "digits_of_nat n \<noteq> []"
  by (subst digits_of_nat.simps) simp

lemma hd_digits_of_nat: "\<exists>d<10. hd (digits_of_nat n) = digit_char d"
proof (induction n rule: digits_of_nat.induct)
  case (1 n)
  show ?case
  proof (cases "n < 10")
    case True
    then show ?thesis
      by (auto simp: digits_of_nat.simps [of n])
  next
    case False
    with 1 show ?thesis
      by (simp add: digits_of_nat.simps [of n] digits_of_nat_nonempty)
  qed
qed

lemma py_int_digits: "py_int (digits_of_nat n) = Some (int n)"
proof -
  obtain c cs where eq: "digits_of_nat n = c # cs"
    using digits_of_nat_nonempty [of n] by (cases "digits_of_nat n") auto
  obtain d where "d < 10" "c = digit_char d"
    using hd_digits_of_nat [of n] eq by auto
  then have "c \<noteq> CHR ''-''" "c \<noteq> CHR ''+''"
    using digit_char_not_sign by auto
  then have "py_int (c # cs) = map_option int (nat_of_digits 0 (c # cs))"
    by (simp add: py_int_def)
  then show ?thesis
    using nat_of_digits_digits [of n] eq by simp
qed

lemma py_int_str: "py_int (py_str_int i) = Some i"
proof (cases "i < 0")
  case True
  then show ?thesis
    by (simp add: py_str_int_def py_int_def digits_of_nat_nonempty nat_of_digits_digits)
next
  case False
  then show ?thesis
    by (simp add: py_str_int_def py_int_digits)
qed


section \<open>Order of claims, repeated completion, retries and task ids\<close>

text \<open>
  C1. The claim: two tasks submitted with \<open>add_task\<close> are claimed by
  \<open>get_task\<close> in submission order, oldest first. On the code: \<open>add_task\<close>
  pushes on the right end of the pending list and \<open>get_task\<close> pops that same
  right end, so after submitting \<open>task-1000\<close> and then \<open>task-1001\<close> to an
  empty queue the first claim returns \<open>task-1001\<close>, the newest submission, and
  \<open>task-1000\<close> stays pending.
\<close>

theorem add_task_get_task_newest_first:
  "(let q0 = new_queue 3;
        (id1, q1) = add_task 1000 ''2026-01-01T00:00:00'' ''{}'' q0;
        (id2, q2) = add_task 1001 ''2026-01-01T00:00:00'' ''{}'' q1;
        (t, q3) = get_task ''worker-1'' ''2026-01-01T00:00:01'' q2
    in id1 = ''task-1000'' \<and> id2 = ''task-1001'' \<and> claimed_id t = Some id2 \<and>
       pending_key q3 = [id1] \<and> processing_key q3 = [id2])"
  by code_simp

text \<open>
  C2. The claim: a second \<open>mark_completed\<close> for the same id changes nothing, and
  the completed list does not grow. On the code: one task is submitted, claimed
  and completed; the completed list is \<open>[task-1000]\<close>. The second call finds
  nothing to remove from the processing list and still appends the id, so the
  completed list becomes \<open>[task-1000, task-1000]\<close>.
\<close>

theorem mark_completed_twice_grows_completed:
  "(let q0 = new_queue 3;
        (tid, q1) = add_task 1000 ''2026-01-01T00:00:00'' ''{}'' q0;
        (t, q2) = get_task ''worker-1'' ''2026-01-01T00:00:01'' q1;
        q3 = mark_completed tid None ''2026-01-01T00:00:02'' q2;
        q4 = mark_completed tid None ''2026-01-01T00:00:03'' q3
    in processing_key q3 = [] \<and> completed_key q3 = [tid] \<and>
       processing_key q4 = [] \<and> completed_key q4 = [tid, tid] \<and>
       hget (task_key q4 tid) ''completed_at'' = Some ''2026-01-01T00:00:03'')"
  by code_simp

text \<open>
  C3. The claim: \<open>mark_failed\<close> removes the id from the processing list,
  increments \<open>retry_count\<close>, and either re-enqueues the task with status
  \<open>failed\<close> so that it is not claimed before newer work, or sends it to the
  dead-letter list with status \<open>dead\<close>. On the code: \<open>task-1000\<close> is claimed,
  \<open>task-2000\<close> is submitted afterwards, then \<open>task-1000\<close> fails. The list
  moves, the counter and the status are as claimed, and the retried id is pushed
  on the right end of the pending list, which is the end \<open>get_task\<close> pops: the
  next claim returns the retried \<open>task-1000\<close> ahead of the waiting
  \<open>task-2000\<close>.
\<close>

theorem mark_failed_retry_claimed_before_waiting_task:
  "(let q0 = new_queue 3;
        (a, q1) = add_task 1000 ''2026-01-01T00:00:00'' ''{}'' q0;
        (t, q2) = get_task ''worker-1'' ''2026-01-01T00:00:01'' q1;
        (b, q3) = add_task 2000 ''2026-01-01T00:00:02'' ''{}'' q2;
        (e, q4) = mark_failed a ''boom'' True ''2026-01-01T00:00:03'' q3;
        (t', q5) = get_task ''worker-2'' ''2026-01-01T00:00:04'' q4
    in e = None \<and> processing_key q4 = [] \<and> pending_key q4 = [b, a] \<and>
       hget (task_key q4 a) ''retry_count'' = Some ''1'' \<and>
       hget (task_key q4 a) ''status'' = Some ''failed'' \<and>
       claimed_id t' = Some a \<and> pending_key q5 = [b])"
  by code_simp

text \<open>
  C6. The claim: every \<open>add_task\<close> mints an id of its own, also within one
  millisecond, and later ids compare above earlier ones. On the code: the id is
  \<open>task-\<close> followed by the millisecond stamp and nothing else, so two calls at
  the stamp 1000 both return \<open>task-1000\<close>; the id is then twice in the pending
  list, and the one hash the two submissions share holds the data of the second.
\<close>

theorem add_task_same_millisecond_same_id:
  "(let q0 = new_queue 3;
        (id1, q1) = add_task 1000 ''2026-01-01T00:00:00'' ''{\"input_path\": \"a.jpg\"}'' q0;
        (id2, q2) = add_task 1000 ''2026-01-01T00:00:00'' ''{\"input_path\": \"b.jpg\"}'' q1
    in id1 = ''task-1000'' \<and> id2 = id1 \<and> pending_key q2 = [id1, id1] \<and>
       hget (task_key q2 id1) ''data'' = Some ''{\"input_path\": \"b.jpg\"}'')"
  by code_simp


section \<open>Every task at rest is in the one list of its status\<close>

lemma hget_hset [simp]: "hget (snd (hset h f v)) f' = (if f' = f then Some v else hget h f')"
  by (simp add: hget_def hset_def update_conv')

lemma hset_nonempty [simp]: "snd (hset h f v) \<noteq> []"
  by (cases h) (auto simp: hset_def)

lemma hget_Nil [simp]: "hget [] f = None"
  by (simp add: hget_def)

lemma task_status_Nil: "task_key q t = [] \<Longrightarrow> task_status q t = None"
  by (simp add: task_status_def)

lemma set_butlast_distinct:
  assumes "distinct xs" and "xs \<noteq> []"
  shows "set (butlast xs) = set xs - {last xs}"
proof -
  have eq: "butlast xs @ [last xs] = xs"
    using assms(2) by simp
  have "distinct (butlast xs @ [last xs])"
    using assms(1) by (simp only: eq)
  then have notin: "last xs \<notin> set (butlast xs)"
    by simp
  have "set xs = set (butlast xs @ [last xs])"
    by (simp only: eq)
  then have "set xs = insert (last xs) (set (butlast xs))"
    by simp
  with notin show ?thesis
    by blast
qed

lemma inv_init: "queue_inv (new_queue mr)"
  by (simp add: queue_inv_def inv_fields_def inv_lists_def inv_distinct_def new_queue_def
      task_status_def)

lemma add_task_state:
  "snd (add_task ms now task_data q) =
     q\<lparr>task_key := (task_key q)(''task-'' @ py_str_int ms :=
            hset_mapping (task_key q (''task-'' @ py_str_int ms))
              [(''task_id'', ''task-'' @ py_str_int ms), (''data'', task_data),
               (''status'', ''pending''), (''created_at'', now),
               (''retry_count'', py_str_int 0), (''last_error'', ''None'')]),
       pending_key := pending_key q @ [''task-'' @ py_str_int ms]\<rparr>"
  by (simp add: add_task_def Let_def rpush_def)

lemma new_task_fields:
  "hget (hset_mapping h [(''task_id'', i), (''data'', d), (''status'', ''pending''),
      (''created_at'', c), (''retry_count'', r), (''last_error'', e)]) ''status'' = Some ''pending''"
  "hget (hset_mapping h [(''task_id'', i), (''data'', d), (''status'', ''pending''),
      (''created_at'', c), (''retry_count'', r), (''last_error'', e)]) ''retry_count'' = Some r"
  "hget (hset_mapping h [(''task_id'', i), (''data'', d), (''status'', ''pending''),
      (''created_at'', c), (''retry_count'', r), (''last_error'', e)]) ''task_id'' = Some i"
  "hset_mapping h [(''task_id'', i), (''data'', d), (''status'', ''pending''),
      (''created_at'', c), (''retry_count'', r), (''last_error'', e)] \<noteq> []"
  by (simp_all add: hset_mapping_def)

lemma inv_add:
  assumes inv: "queue_inv q" and fresh: "task_key q (''task-'' @ py_str_int ms) = []"
  shows "queue_inv (snd (add_task ms now task_data q))"
proof -
  let ?tid = "''task-'' @ py_str_int ms"
  let ?q = "snd (add_task ms now task_data q)"
  from inv have F: "inv_fields q" and L: "inv_lists q" and D: "inv_distinct q"
    by (simp_all add: queue_inv_def)
  have none: "task_status q ?tid = None"
    using fresh by (rule task_status_Nil)
  have st: "\<And>t. task_status ?q t = (if t = ?tid then Some ''pending'' else task_status q t)"
    by (simp add: add_task_state task_status_def new_task_fields)
  have "inv_fields ?q"
    using F unfolding inv_fields_def st
    by (auto simp: add_task_state new_task_fields statuses_def)
  moreover have "inv_lists ?q"
    using L none unfolding inv_lists_def st
    by (auto simp: add_task_state)
  moreover have "inv_distinct ?q"
    using D L none unfolding inv_distinct_def inv_lists_def
    by (auto simp: add_task_state)
  ultimately show ?thesis
    by (simp add: queue_inv_def)
qed


lemma status_Some_nonempty: "task_status q t = Some st \<Longrightarrow> task_key q t \<noteq> []"
  by (auto simp: task_status_def)

lemma get_task_empty: "pending_key q = [] \<Longrightarrow> snd (get_task worker_id now q) = q"
  by (simp add: get_task_def brpoplpush_def)

lemma get_task_state:
  assumes "pending_key q \<noteq> []" and "last (pending_key q) \<noteq> []"
    and "task_key q (last (pending_key q)) \<noteq> []"
  shows "snd (get_task worker_id now q) =
     q\<lparr>pending_key := butlast (pending_key q),
       processing_key := last (pending_key q) # processing_key q,
       task_key := (task_key q)(last (pending_key q) :=
         snd (hset (snd (hset (snd (hset (task_key q (last (pending_key q)))
           ''status'' ''processing'')) ''worker_id'' worker_id)) ''started_at'' now))\<rparr>"
  using assms by (simp add: get_task_def brpoplpush_def lpush_def Let_def)

lemma inv_claim:
  assumes inv: "queue_inv q"
  shows "queue_inv (snd (get_task worker_id now q))"
proof (cases "pending_key q = []")
  case True
  then show ?thesis
    using inv by (simp add: get_task_empty)
next
  case False
  let ?tid = "last (pending_key q)"
  let ?q = "snd (get_task worker_id now q)"
  from inv have F: "inv_fields q" and L: "inv_lists q" and D: "inv_distinct q"
    by (simp_all add: queue_inv_def)
  have mem: "?tid \<in> set (pending_key q)"
    using False by simp
  then have old: "task_status q ?tid = Some ''pending'' \<or> task_status q ?tid = Some ''failed''"
    using L by (simp add: inv_lists_def)
  then have ne: "task_key q ?tid \<noteq> []"
    by (auto dest: status_Some_nonempty)
  then have tid: "?tid \<noteq> []"
    using D by (auto simp: inv_distinct_def)
  note state = get_task_state [OF False tid ne]
  have st: "\<And>t. task_status ?q t = (if t = ?tid then Some ''processing'' else task_status q t)"
    by (simp add: state task_status_def)
  have pend: "set (butlast (pending_key q)) = set (pending_key q) - {?tid}"
    using D False by (simp add: inv_distinct_def set_butlast_distinct)
  have "inv_fields ?q"
    using F ne unfolding inv_fields_def st
    by (auto simp: state statuses_def)
  moreover have "inv_lists ?q"
    using L old unfolding inv_lists_def st
    by (auto simp: state pend)
  moreover have "inv_distinct ?q"
    using D L old tid unfolding inv_distinct_def inv_lists_def
    by (auto simp: state distinct_butlast)
  ultimately show ?thesis
    by (simp add: queue_inv_def)
qed

lemma mark_completed_state:
  "mark_completed task_id result now q =
     q\<lparr>processing_key := remove1 task_id (processing_key q),
       task_key := (task_key q)(task_id :=
         (case result of
            None \<Rightarrow> snd (hset (snd (hset (task_key q task_id) ''status'' ''completed''))
                       ''completed_at'' now)
          | Some r \<Rightarrow> snd (hset (snd (hset (snd (hset (task_key q task_id) ''status'' ''completed''))
                       ''completed_at'' now)) ''result'' r))),
       completed_key := completed_key q @ [task_id]\<rparr>"
  by (cases result) (simp_all add: mark_completed_def Let_def lrem1_def rpush_def)

lemma inv_complete:
  assumes inv: "queue_inv q" and mem: "task_id \<in> set (processing_key q)"
  shows "queue_inv (mark_completed task_id result now q)"
proof -
  let ?q = "mark_completed task_id result now q"
  from inv have F: "inv_fields q" and L: "inv_lists q" and D: "inv_distinct q"
    by (simp_all add: queue_inv_def)
  have old: "task_status q task_id = Some ''processing''"
    using L mem by (simp add: inv_lists_def)
  then have ne: "task_key q task_id \<noteq> []"
    by (rule status_Some_nonempty)
  have tid: "task_id \<noteq> []"
    using ne D by (auto simp: inv_distinct_def)
  have st: "\<And>t. task_status ?q t = (if t = task_id then Some ''completed'' else task_status q t)"
    by (simp add: mark_completed_state task_status_def split: option.split)
  have rc: "\<And>t. hget (task_key ?q t) ''retry_count'' = hget (task_key q t) ''retry_count''"
    by (simp add: mark_completed_state split: option.split)
  have nonempty: "\<And>t. task_key ?q t \<noteq> [] \<longleftrightarrow> task_key q t \<noteq> []"
    using ne by (simp add: mark_completed_state split: option.split)
  have proc: "set (remove1 task_id (processing_key q)) = set (processing_key q) - {task_id}"
    using D by (simp add: inv_distinct_def)
  have "inv_fields ?q"
    using F unfolding inv_fields_def st rc nonempty
    by (auto simp: statuses_def)
  moreover have "inv_lists ?q"
    using L old unfolding inv_lists_def st
    by (auto simp: mark_completed_state proc)
  moreover have "inv_distinct ?q"
    using D L old tid unfolding inv_distinct_def inv_lists_def
    by (auto simp: mark_completed_state)
  ultimately show ?thesis
    by (simp add: queue_inv_def)
qed


lemma mark_failed_state:
  assumes "hget (task_key q task_id) ''retry_count'' = Some (py_str_int n)"
  shows "mark_failed task_id error_message should_retry now q =
     (None,
      if should_retry \<and> n + 1 < max_retries q then
        q\<lparr>processing_key := remove1 task_id (processing_key q),
          task_key := (task_key q)(task_id :=
            snd (hset (snd (hset (snd (hset (snd (hset (task_key q task_id)
              ''retry_count'' (py_str_int (n + 1)))) ''last_error'' error_message))
              ''failed_at'' now)) ''status'' ''failed'')),
          pending_key := pending_key q @ [task_id]\<rparr>
      else
        q\<lparr>processing_key := remove1 task_id (processing_key q),
          task_key := (task_key q)(task_id :=
            snd (hset (snd (hset (snd (hset (snd (hset (task_key q task_id)
              ''retry_count'' (py_str_int (n + 1)))) ''last_error'' error_message))
              ''failed_at'' now)) ''status'' ''dead'')),
          dead_letter_key := dead_letter_key q @ [task_id]\<rparr>)"
  using assms by (simp add: mark_failed_def Let_def lrem1_def rpush_def py_int_str)

lemma inv_fail:
  assumes inv: "queue_inv q" and mem: "task_id \<in> set (processing_key q)"
  shows "queue_inv (snd (mark_failed task_id error_message should_retry now q))"
proof -
  let ?q = "snd (mark_failed task_id error_message should_retry now q)"
  from inv have F: "inv_fields q" and L: "inv_lists q" and D: "inv_distinct q"
    by (simp_all add: queue_inv_def)
  have old: "task_status q task_id = Some ''processing''"
    using L mem by (simp add: inv_lists_def)
  then have ne: "task_key q task_id \<noteq> []"
    by (rule status_Some_nonempty)
  have tid: "task_id \<noteq> []"
    using ne D by (auto simp: inv_distinct_def)
  obtain n where n: "hget (task_key q task_id) ''retry_count'' = Some (py_str_int n)"
    using F ne by (auto simp: inv_fields_def)
  have proc: "set (remove1 task_id (processing_key q)) = set (processing_key q) - {task_id}"
    using D by (simp add: inv_distinct_def)
  show ?thesis
  proof (cases "should_retry \<and> n + 1 < max_retries q")
    case True
    note state = mark_failed_state [OF n, of error_message should_retry now, unfolded if_P [OF True]]
    have st: "\<And>t. task_status ?q t = (if t = task_id then Some ''failed'' else task_status q t)"
      by (simp add: state task_status_def)
    have rc: "\<And>t. hget (task_key ?q t) ''retry_count'' =
        (if t = task_id then Some (py_str_int (n + 1)) else hget (task_key q t) ''retry_count'')"
      by (simp add: state)
    have nonempty: "\<And>t. task_key ?q t \<noteq> [] \<longleftrightarrow> task_key q t \<noteq> []"
      using ne by (simp add: state)
    have "inv_fields ?q"
      using F unfolding inv_fields_def st rc nonempty
      by (auto simp: statuses_def)
    moreover have "inv_lists ?q"
      using L old unfolding inv_lists_def st
      by (auto simp: state proc)
    moreover have "inv_distinct ?q"
      using D L old tid unfolding inv_distinct_def inv_lists_def
      by (auto simp: state)
    ultimately show ?thesis
      by (simp add: queue_inv_def)
  next
    case False
    note state = mark_failed_state [OF n, of error_message should_retry now, unfolded if_not_P [OF False]]
    have st: "\<And>t. task_status ?q t = (if t = task_id then Some ''dead'' else task_status q t)"
      by (simp add: state task_status_def)
    have rc: "\<And>t. hget (task_key ?q t) ''retry_count'' =
        (if t = task_id then Some (py_str_int (n + 1)) else hget (task_key q t) ''retry_count'')"
      by (simp add: state)
    have nonempty: "\<And>t. task_key ?q t \<noteq> [] \<longleftrightarrow> task_key q t \<noteq> []"
      using ne by (simp add: state)
    have "inv_fields ?q"
      using F unfolding inv_fields_def st rc nonempty
      by (auto simp: statuses_def)
    moreover have "inv_lists ?q"
      using L old unfolding inv_lists_def st
      by (auto simp: state proc)
    moreover have "inv_distinct ?q"
      using D L old tid unfolding inv_distinct_def inv_lists_def
      by (auto simp: state)
    ultimately show ?thesis
      by (simp add: queue_inv_def)
  qed
qed

lemma retry_dead_letter_task_absent:
  "task_id \<notin> set (dead_letter_key q) \<Longrightarrow> retry_dead_letter_task task_id q = q"
  by (simp add: retry_dead_letter_task_def lrem1_def remove1_idem)

lemma retry_dead_letter_task_state:
  "task_id \<in> set (dead_letter_key q) \<Longrightarrow> retry_dead_letter_task task_id q =
     q\<lparr>dead_letter_key := remove1 task_id (dead_letter_key q),
       task_key := (task_key q)(task_id :=
         snd (hset (snd (hset (task_key q task_id) ''retry_count'' (py_str_int 0)))
           ''status'' ''pending'')),
       pending_key := pending_key q @ [task_id]\<rparr>"
  by (simp add: retry_dead_letter_task_def lrem1_def rpush_def Let_def)

lemma inv_retry_dead:
  assumes inv: "queue_inv q"
  shows "queue_inv (retry_dead_letter_task task_id q)"
proof (cases "task_id \<in> set (dead_letter_key q)")
  case False
  then show ?thesis
    using inv by (simp add: retry_dead_letter_task_absent)
next
  case True
  let ?q = "retry_dead_letter_task task_id q"
  from inv have F: "inv_fields q" and L: "inv_lists q" and D: "inv_distinct q"
    by (simp_all add: queue_inv_def)
  have old: "task_status q task_id = Some ''dead''"
    using L True by (simp add: inv_lists_def)
  then have ne: "task_key q task_id \<noteq> []"
    by (rule status_Some_nonempty)
  have tid: "task_id \<noteq> []"
    using ne D by (auto simp: inv_distinct_def)
  note state = retry_dead_letter_task_state [OF True]
  have dl: "set (remove1 task_id (dead_letter_key q)) = set (dead_letter_key q) - {task_id}"
    using D by (simp add: inv_distinct_def)
  have st: "\<And>t. task_status ?q t = (if t = task_id then Some ''pending'' else task_status q t)"
    by (simp add: state task_status_def)
  have rc: "\<And>t. hget (task_key ?q t) ''retry_count'' =
      (if t = task_id then Some (py_str_int 0) else hget (task_key q t) ''retry_count'')"
    by (simp add: state)
  have nonempty: "\<And>t. task_key ?q t \<noteq> [] \<longleftrightarrow> task_key q t \<noteq> []"
    using ne by (simp add: state)
  have "inv_fields ?q"
    using F unfolding inv_fields_def st rc nonempty
    by (auto simp: statuses_def)
  moreover have "inv_lists ?q"
    using L old unfolding inv_lists_def st
    by (auto simp: state dl)
  moreover have "inv_distinct ?q"
    using D L old tid unfolding inv_distinct_def inv_lists_def
    by (auto simp: state)
  ultimately show ?thesis
    by (simp add: queue_inv_def)
qed

lemma reachable_inv: "reachable q \<Longrightarrow> queue_inv q"
proof (induction rule: reachable.induct)
  case (init mr)
  show ?case by (rule inv_init)
next
  case (add q ms now task_data)
  then show ?case by (simp add: inv_add)
next
  case (claim q worker_id now)
  then show ?case by (simp add: inv_claim)
next
  case (complete q task_id result now)
  then show ?case by (simp add: inv_complete)
next
  case (fail q task_id error_message should_retry now)
  then show ?case by (simp add: inv_fail)
next
  case (retry_dead q task_id)
  then show ?case by (simp add: inv_retry_dead)
qed

lemma lists_holding_of_inv:
  assumes L: "inv_lists q" and D: "inv_distinct q" and st: "task_status q t = Some st"
    and five: "st \<in> set statuses"
  shows "lists_holding q t = [list_of_status st]"
  using L D st five
  by (auto simp: inv_lists_def inv_distinct_def lists_holding_def queue_lists_def
      list_of_status_def statuses_def)

lemma lists_holding_none:
  assumes L: "inv_lists q" and D: "inv_distinct q" and st: "task_status q t = None"
  shows "lists_holding q t = []"
  using L D st
  by (auto simp: inv_lists_def inv_distinct_def lists_holding_def queue_lists_def)

text \<open>
  C4, as amended. For every queue state reached from an empty database by
  \<open>add_task\<close> with stamps not in use, \<open>get_task\<close>, \<open>mark_completed\<close> and
  \<open>mark_failed\<close> on ids in the processing list, and
  \<open>retry_dead_letter_task\<close>: an id without a task hash is in no list, and
  every task has one of the five statuses and its id is a member of exactly one
  list, the one the code keeps that status in (pending for \<open>pending\<close> and
  \<open>failed\<close>, processing, completed, dead_letter for \<open>dead\<close>).
\<close>

theorem task_at_rest_in_one_list:
  assumes "reachable q"
  shows "case task_status q t of
           None \<Rightarrow> task_key q t = [] \<and> lists_holding q t = []
         | Some st \<Rightarrow> st \<in> set statuses \<and> lists_holding q t = [list_of_status st]"
proof -
  from assms have inv: "queue_inv q"
    by (rule reachable_inv)
  then have F: "inv_fields q" and L: "inv_lists q" and D: "inv_distinct q"
    by (simp_all add: queue_inv_def)
  show ?thesis
  proof (cases "task_status q t")
    case None
    then have "task_key q t = []"
      using F by (auto simp: inv_fields_def)
    with None show ?thesis
      using lists_holding_none [OF L D None] by simp
  next
    case (Some st)
    then have "task_key q t \<noteq> []"
      by (rule status_Some_nonempty)
    then have "st \<in> set statuses"
      using F Some by (auto simp: inv_fields_def)
    with Some show ?thesis
      using lists_holding_of_inv [OF L D Some] by simp
  qed
qed

theorem task_at_rest_in_one_list_witness:
  "(let q = snd (mark_failed ''task-1000'' ''boom'' True ''2026-01-01T00:00:02''
             (snd (get_task ''worker-1'' ''2026-01-01T00:00:01''
               (snd (add_task 1000 ''2026-01-01T00:00:00'' ''{}'' (new_queue 3))))))
    in reachable q \<and> task_status q ''task-1000'' = Some ''failed'' \<and>
       lists_holding q ''task-1000'' = [''pending''])"
proof -
  let ?q1 = "snd (add_task 1000 ''2026-01-01T00:00:00'' ''{}'' (new_queue 3))"
  let ?q2 = "snd (get_task ''worker-1'' ''2026-01-01T00:00:01'' ?q1)"
  let ?q3 = "snd (mark_failed ''task-1000'' ''boom'' True ''2026-01-01T00:00:02'' ?q2)"
  have r1: "reachable ?q1"
    by (rule reachable.add [OF reachable.init]) (simp add: new_queue_def)
  have r2: "reachable ?q2"
    by (rule reachable.claim [OF r1])
  have "''task-1000'' \<in> set (processing_key ?q2)"
    by code_simp
  then have r3: "reachable ?q3"
    by (rule reachable.fail [OF r2])
  have st: "task_status ?q3 ''task-1000'' = Some ''failed''"
    by code_simp
  have "lists_holding ?q3 ''task-1000'' = [list_of_status ''failed'']"
    using task_at_rest_in_one_list [OF r3, of "''task-1000''"] by (simp add: st)
  then have "lists_holding ?q3 ''task-1000'' = [''pending'']"
    by (simp add: list_of_status_def)
  with r3 st show ?thesis
    by (simp add: Let_def)
qed

text \<open>
  C4, as stated, fails: after one failure with a retry left, the task has the
  status \<open>failed\<close>, its id is in the pending list and the failed list is empty.
\<close>

theorem failed_task_not_in_failed_list:
  "(let q = snd (mark_failed ''task-1000'' ''boom'' True ''2026-01-01T00:00:02''
             (snd (get_task ''worker-1'' ''2026-01-01T00:00:01''
               (snd (add_task 1000 ''2026-01-01T00:00:00'' ''{}'' (new_queue 3))))))
    in task_status q ''task-1000'' = Some ''failed'' \<and>
       ''task-1000'' \<notin> set (failed_key q) \<and> failed_key q = [] \<and>
       ''task-1000'' \<in> set (pending_key q))"
  by code_simp


section \<open>Further properties of the queue\<close>

text \<open>
  A claim that directly follows a submission returns that submission, whatever
  was pending before: the returned hash has the new id, the submitted data, the
  status \<open>pending\<close> and the retry count 0; the id moves to the head of the
  processing list, the pending list is as before the submission, and the stored
  hash records the status \<open>processing\<close> and the worker.
\<close>

theorem add_task_then_get_task_returns_submission:
  "(let (task_id, q1) = add_task ms now task_data q;
        (t, q2) = get_task worker_id now' q1
    in claimed_id t = Some task_id \<and>
       (case t of None \<Rightarrow> False
        | Some h \<Rightarrow> hget h ''data'' = Some task_data \<and> hget h ''status'' = Some ''pending'' \<and>
            hget h ''retry_count'' = Some ''0'') \<and>
       pending_key q2 = pending_key q \<and>
       processing_key q2 = task_id # processing_key q \<and>
       hget (task_key q2 task_id) ''status'' = Some ''processing'' \<and>
       hget (task_key q2 task_id) ''worker_id'' = Some worker_id)"
proof -
  have zero: "py_str_int 0 = ''0''"
    by (simp add: py_str_int_def digits_of_nat.simps digit_char_def)
  have data: "\<And>h i d c r e. hget (hset_mapping h [(''task_id'', i), (''data'', d),
      (''status'', ''pending''), (''created_at'', c), (''retry_count'', r), (''last_error'', e)])
      ''data'' = Some d"
    by (simp add: hset_mapping_def)
  show ?thesis
    by (simp add: add_task_state get_task_def add_task_def brpoplpush_def rpush_def lpush_def
        Let_def new_task_fields data claimed_id_def zero split: prod.split)
qed


text \<open>
  Every call of \<open>mark_completed\<close> appends the id to the completed list,
  whether or not the id was in the processing list.
\<close>

theorem mark_completed_always_appends:
  "completed_key (mark_completed task_id result now q) = completed_key q @ [task_id]"
  by (simp add: mark_completed_state)


text \<open>
  Retrying a task of the dead-letter list and then claiming yields that task:
  the returned hash has the retry count 0 and the status \<open>pending\<close>, the id
  is at the head of the processing list, and one occurrence of it has left the
  dead-letter list.
\<close>

theorem retry_dead_letter_then_claim:
  assumes "task_id \<in> set (dead_letter_key q)" and "task_id \<noteq> []"
  shows "(let q1 = retry_dead_letter_task task_id q;
              (t, q2) = get_task worker_id now q1
          in (case t of None \<Rightarrow> False | Some h \<Rightarrow> hget h ''retry_count'' = Some ''0'' \<and> hget h ''status'' = Some ''pending'') \<and>
             processing_key q2 = task_id # processing_key q \<and>
             pending_key q2 = pending_key q \<and>
             dead_letter_key q2 = remove1 task_id (dead_letter_key q))"
proof -
  have zero: "py_str_int 0 = ''0''"
    by (simp add: py_str_int_def digits_of_nat.simps digit_char_def)
  show ?thesis
    using assms(2)
    by (simp add: retry_dead_letter_task_state [OF assms(1)] get_task_def brpoplpush_def
        lpush_def Let_def zero split: prod.split)
qed

theorem retry_dead_letter_then_claim_witness:
  "(let q = snd (mark_failed ''task-1000'' ''boom'' False ''2026-01-01T00:00:02''
             (snd (get_task ''worker-1'' ''2026-01-01T00:00:01''
               (snd (add_task 1000 ''2026-01-01T00:00:00'' ''{}'' (new_queue 3))))));
        q1 = retry_dead_letter_task ''task-1000'' q;
        (t, q2) = get_task ''worker-2'' ''2026-01-01T00:00:03'' q1
    in dead_letter_key q = [''task-1000''] \<and>
       (case t of None \<Rightarrow> False
        | Some h \<Rightarrow> hget h ''retry_count'' = Some ''0'' \<and> hget h ''status'' = Some ''pending'') \<and>
       processing_key q2 = [''task-1000''] \<and> pending_key q2 = [] \<and> dead_letter_key q2 = [])"
proof -
  let ?q = "snd (mark_failed ''task-1000'' ''boom'' False ''2026-01-01T00:00:02''
      (snd (get_task ''worker-1'' ''2026-01-01T00:00:01''
        (snd (add_task 1000 ''2026-01-01T00:00:00'' ''{}'' (new_queue 3))))))"
  have lists: "dead_letter_key ?q = [''task-1000'']" "processing_key ?q = []" "pending_key ?q = []"
    by code_simp+
  have mem: "''task-1000'' \<in> set (dead_letter_key ?q)"
    by (simp add: lists)
  have ne: "''task-1000'' \<noteq> []"
    by simp
  show ?thesis
    using retry_dead_letter_then_claim [OF mem ne, where worker_id = "''worker-2''"
        and now = "''2026-01-01T00:00:03''"]
    by (simp add: Let_def lists split: prod.splits)
qed


section \<open>Heartbeats\<close>

lemma hgetall_redis_hset:
  "hgetall (snd (redis_hset db key f v)) key' =
     (if key' = key then snd (hset (hgetall db key) f v) else hgetall db key')"
  by (simp add: hgetall_def redis_hset_def update_conv' split: prod.split)

text \<open>
  C5, as amended. \<open>send_heartbeat\<close> writes the \<open>last_heartbeat\<close> field of
  the worker's hash and nothing else: every other field of that hash, every
  other key of the database and the registry's timeout are as before. It returns
  \<open>True\<close> whether or not the field existed: the reply of \<open>HSET\<close> is a number
  (0 or 1), never \<open>None\<close>.
\<close>

theorem send_heartbeat_frame:
  "fst (send_heartbeat worker_id now r) = True \<and>
   heartbeat_timeout (snd (send_heartbeat worker_id now r)) = heartbeat_timeout r \<and>
   hget (hgetall (redis (snd (send_heartbeat worker_id now r))) (worker_key worker_id))
     ''last_heartbeat'' = Some now \<and>
   (\<forall>f. f \<noteq> ''last_heartbeat'' \<longrightarrow>
      hget (hgetall (redis (snd (send_heartbeat worker_id now r))) (worker_key worker_id)) f =
      hget (hgetall (redis r) (worker_key worker_id)) f) \<and>
   (\<forall>key. key \<noteq> worker_key worker_id \<longrightarrow>
      hgetall (redis (snd (send_heartbeat worker_id now r))) key = hgetall (redis r) key)"
proof -
  have s: "snd (send_heartbeat worker_id now r) =
      r\<lparr>redis := snd (redis_hset (redis r) (worker_key worker_id) ''last_heartbeat'' now)\<rparr>"
    by (simp add: send_heartbeat_def split: prod.split)
  have "fst (send_heartbeat worker_id now r) = True"
    by (simp add: send_heartbeat_def is_not_None_def split: prod.split)
  then show ?thesis
    by (simp add: s hgetall_redis_hset hget_def hset_def update_conv')
qed



theorem send_heartbeat_frame_witness:
  "(let r = snd (register_worker ''w1'' [(''pid'', ''42'')] ''2026-01-01T00:00:00'' ''100.0''
             (new_registry 30));
        r' = snd (send_heartbeat ''w1'' ''105.0'' r)
    in fst (send_heartbeat ''w1'' ''105.0'' r) = True \<and>
       hget (hgetall (redis r') (worker_key ''w1'')) ''last_heartbeat'' = Some ''105.0'' \<and>
       hget (hgetall (redis r') (worker_key ''w1'')) ''status'' = Some ''active'' \<and>
       hget (hgetall (redis r') (worker_key ''w1'')) ''pid'' = Some ''42'')"
proof -
  let ?r = "snd (register_worker ''w1'' [(''pid'', ''42'')] ''2026-01-01T00:00:00'' ''100.0''
      (new_registry 30))"
  have old: "hget (hgetall (redis ?r) (worker_key ''w1'')) ''status'' = Some ''active''"
      "hget (hgetall (redis ?r) (worker_key ''w1'')) ''pid'' = Some ''42''"
    by code_simp+
  show ?thesis
    using send_heartbeat_frame [of "''w1''" "''105.0''" ?r] old
    by (simp add: Let_def)
qed

text \<open>
  C5, as stated, fails: on a registry without a record for \<open>w1\<close> the field
  \<open>last_heartbeat\<close> does not exist before the call, and the call returns
  \<open>True\<close>.
\<close>

theorem send_heartbeat_returns_true_for_new_field:
  "hget (hgetall (redis (new_registry 30)) (worker_key ''w1'')) ''last_heartbeat'' = None \<and>
   fst (send_heartbeat ''w1'' ''100.0'' (new_registry 30)) = True"
  by code_simp

lemma active_loop_keeps:
  assumes "list_all (heartbeat_readable py_float r) keys"
  shows "\<exists>ws. active_loop py_float ct r keys acc = Inr ws \<and> set acc \<subseteq> set ws"
  using assms
proof (induction keys arbitrary: acc)
  case Nil
  then show ?case by simp
next
  case (Cons key keys)
  then have rd: "heartbeat_readable py_float r key"
    and rest: "list_all (heartbeat_readable py_float r) keys"
    by simp_all
  show ?case
  proof (cases "hgetall (redis r) key = []")
    case True
    then show ?thesis
      using Cons.IH [OF rest, of acc] by simp
  next
    case False
    obtain t where t: "(case hget (hgetall (redis r) key) ''last_heartbeat'' of
        None \<Rightarrow> Some 0 | Some s \<Rightarrow> py_float s) = Some t"
      using rd by (auto simp: heartbeat_readable_def split: option.splits)
    show ?thesis
    proof (cases "ct - t < real_of_int (heartbeat_timeout r)")
      case True
      obtain ws where "active_loop py_float ct r keys
          (acc @ [worker_view (hgetall (redis r) key) (ct - t) True]) = Inr ws"
        and "set (acc @ [worker_view (hgetall (redis r) key) (ct - t) True]) \<subseteq> set ws"
        using Cons.IH [OF rest] by blast
      then show ?thesis
        using False t True by (simp add: Let_def)
    next
      case no: False
      then show ?thesis
        using False t Cons.IH [OF rest, of acc] by (simp add: Let_def)
    qed
  qed
qed

lemma active_loop_includes:
  assumes "list_all (heartbeat_readable py_float r) keys"
    and "key \<in> set keys"
    and "hgetall (redis r) key \<noteq> []"
    and "hget (hgetall (redis r) key) ''last_heartbeat'' = Some s"
    and "py_float s = Some t"
    and "ct - t < real_of_int (heartbeat_timeout r)"
  shows "\<exists>ws. active_loop py_float ct r keys acc = Inr ws \<and>
           worker_view (hgetall (redis r) key) (ct - t) True \<in> set ws"
  using assms(1,2)
proof (induction keys arbitrary: acc)
  case Nil
  then show ?case by simp
next
  case (Cons k keys)
  then have rd: "heartbeat_readable py_float r k"
    and rest: "list_all (heartbeat_readable py_float r) keys"
    by simp_all
  show ?case
  proof (cases "k = key")
    case True
    obtain ws where "active_loop py_float ct r keys
        (acc @ [worker_view (hgetall (redis r) key) (ct - t) True]) = Inr ws"
      and "set (acc @ [worker_view (hgetall (redis r) key) (ct - t) True]) \<subseteq> set ws"
      using active_loop_keeps [OF rest] by blast
    then show ?thesis
      using True assms(3-6) by (simp add: Let_def)
  next
    case False
    then have mem: "key \<in> set keys"
      using Cons.prems(2) by simp
    show ?thesis
    proof (cases "hgetall (redis r) k = []")
      case True
      then show ?thesis
        using Cons.IH [OF rest mem, of acc] by simp
    next
      case ne: False
      obtain u where u: "(case hget (hgetall (redis r) k) ''last_heartbeat'' of
          None \<Rightarrow> Some 0 | Some s \<Rightarrow> py_float s) = Some u"
        using rd by (auto simp: heartbeat_readable_def split: option.splits)
      show ?thesis
      proof (cases "ct - u < real_of_int (heartbeat_timeout r)")
        case True
        then show ?thesis
          using ne u Cons.IH [OF rest mem, of "acc @ [worker_view (hgetall (redis r) k) (ct - u) True]"]
          by (simp add: Let_def)
      next
        case False
        then show ?thesis
          using ne u Cons.IH [OF rest mem, of acc] by (simp add: Let_def)
      qed
    qed
  qed
qed

lemma send_heartbeat_state:
  "snd (send_heartbeat worker_id now r) =
     r\<lparr>redis := snd (redis_hset (redis r) (worker_key worker_id) ''last_heartbeat'' now)\<rparr>"
  by (simp add: send_heartbeat_def split: prod.split)

lemma keys_update: "set (map fst (AList.update k v al)) = insert k (set (map fst al))"
  by (auto simp: update_keys)

lemma redis_keys_hset:
  "set (redis_keys (snd (redis_hset db key f v)) pre) =
     set (redis_keys db pre) \<union> (if prefix pre key then {key} else {})"
proof -
  obtain n h where nh: "hset (hgetall db key) f v = (n, h)"
    by (cases "hset (hgetall db key) f v")
  then have "snd (redis_hset db key f v) = AList.update key h db"
    by (simp add: redis_hset_def)
  then have "set (redis_keys (snd (redis_hset db key f v)) pre) =
      {k \<in> insert key (set (map fst db)). prefix pre k}"
    unfolding redis_keys_def by (simp only: set_filter keys_update)
  also have "\<dots> = set (redis_keys db pre) \<union> (if prefix pre key then {key} else {})"
    unfolding redis_keys_def by (simp only: set_filter) auto
  finally show ?thesis .
qed

lemma worker_key_prefix: "prefix (registry_key @ '':'') (worker_key worker_id)"
  by (simp add: worker_key_def)

text \<open>
  C10. A heartbeat for a worker id that has no record does not fail: it returns
  \<open>True\<close> and leaves a hash that holds \<open>last_heartbeat\<close> only. While that
  heartbeat is younger than the timeout, \<open>get_active_workers\<close> returns and its
  result contains the record, which has no \<open>worker_id\<close>, \<open>registered_at\<close> or
  \<open>status\<close>. (\<open>get_active_workers\<close> raises when some stored heartbeat is not
  a number; the records that were there before are assumed readable.)
\<close>

theorem heartbeat_of_unregistered_worker:
  assumes no_record: "hgetall (redis r) (worker_key worker_id) = []"
    and readable: "heartbeats_readable py_float r"
    and stamp: "py_float now = Some t"
    and fresh: "current_time - t < real_of_int (heartbeat_timeout r)"
  shows "fst (send_heartbeat worker_id now r) = True \<and>
         hgetall (redis (snd (send_heartbeat worker_id now r))) (worker_key worker_id) =
           [(''last_heartbeat'', now)] \<and>
         (\<exists>ws. get_active_workers py_float current_time (snd (send_heartbeat worker_id now r)) = Inr ws \<and>
            [(''last_heartbeat'', PStr now),
             (''time_since_heartbeat'', PFloat (py_round2 (current_time - t))),
             (''is_alive'', PBool True)] \<in> set ws)"
proof -
  let ?r = "snd (send_heartbeat worker_id now r)"
  let ?key = "worker_key worker_id"
  let ?keys = "redis_keys (redis ?r) (registry_key @ '':'')"
  have ret: "fst (send_heartbeat worker_id now r) = True"
    by (simp add: send_heartbeat_def is_not_None_def split: prod.split)
  have h: "hgetall (redis ?r) ?key = [(''last_heartbeat'', now)]"
    using no_record by (simp add: send_heartbeat_state hgetall_redis_hset hset_def)
  have other: "\<And>k. k \<noteq> ?key \<Longrightarrow> hgetall (redis ?r) k = hgetall (redis r) k"
    by (simp add: send_heartbeat_state hgetall_redis_hset)
  have timeout: "heartbeat_timeout ?r = heartbeat_timeout r"
    by (simp add: send_heartbeat_state)
  have keys: "set ?keys = set (redis_keys (redis r) (registry_key @ '':'')) \<union> {?key}"
    by (simp add: send_heartbeat_state redis_keys_hset worker_key_prefix)
  have rd: "list_all (heartbeat_readable py_float ?r) ?keys"
    unfolding list_all_iff
  proof
    fix k assume k: "k \<in> set ?keys"
    show "heartbeat_readable py_float ?r k"
    proof (cases "k = ?key")
      case True
      then show ?thesis
        using h stamp by (simp add: heartbeat_readable_def hget_def)
    next
      case False
      then have "k \<in> set (redis_keys (redis r) (registry_key @ '':''))"
        using k keys by simp
      then have "heartbeat_readable py_float r k"
        using readable by (simp add: heartbeats_readable_def list_all_iff)
      then show ?thesis
        using False by (simp add: heartbeat_readable_def other)
    qed
  qed
  have mem: "?key \<in> set ?keys"
    using keys by simp
  have ne: "hgetall (redis ?r) ?key \<noteq> []"
    using h by simp
  have hb: "hget (hgetall (redis ?r) ?key) ''last_heartbeat'' = Some now"
    using h by (simp add: hget_def)
  have fresh': "current_time - t < real_of_int (heartbeat_timeout ?r)"
    using fresh timeout by simp
  obtain ws where ws: "active_loop py_float current_time ?r ?keys [] = Inr ws"
    and inws: "worker_view (hgetall (redis ?r) ?key) (current_time - t) True \<in> set ws"
    using active_loop_includes [OF rd mem ne hb stamp fresh'] by blast
  have view: "worker_view (hgetall (redis ?r) ?key) (current_time - t) True =
      [(''last_heartbeat'', PStr now),
       (''time_since_heartbeat'', PFloat (py_round2 (current_time - t))),
       (''is_alive'', PBool True)]"
    by (simp add: h worker_view_def)
  show ?thesis
    using ret h ws inws view by (simp add: get_active_workers_def)
qed

theorem heartbeat_of_unregistered_worker_witness:
  "(let py_float = (\<lambda>s. if s = ''90.0'' then Some 90 else if s = ''100.5'' then Some (201 / 2)
                         else None);
        r = snd (register_worker ''w1'' [] ''2026-01-01T00:00:00'' ''90.0'' (new_registry 30));
        r' = snd (send_heartbeat ''ghost'' ''100.5'' r)
    in hgetall (redis r) (worker_key ''ghost'') = [] \<and>
       fst (send_heartbeat ''ghost'' ''100.5'' r) = True \<and>
       hgetall (redis r') (worker_key ''ghost'') = [(''last_heartbeat'', ''100.5'')] \<and>
       (\<exists>ws. get_active_workers py_float 110 r' = Inr ws \<and>
          [(''last_heartbeat'', PStr ''100.5''),
           (''time_since_heartbeat'', PFloat (py_round2 (110 - 201 / 2))),
           (''is_alive'', PBool True)] \<in> set ws))"
proof -
  let ?pf = "\<lambda>s. if s = ''90.0'' then Some (90::real) else if s = ''100.5'' then Some (201 / 2)
      else None"
  let ?r = "snd (register_worker ''w1'' [] ''2026-01-01T00:00:00'' ''90.0'' (new_registry 30))"
  have no_record: "hgetall (redis ?r) (worker_key ''ghost'') = []"
    by code_simp
  have keys: "redis_keys (redis ?r) (registry_key @ '':'') = [worker_key ''w1'']"
    by code_simp
  have hb: "hget (hgetall (redis ?r) (worker_key ''w1'')) ''last_heartbeat'' = Some ''90.0''"
    by code_simp
  have readable: "heartbeats_readable ?pf ?r"
    by (simp add: heartbeats_readable_def heartbeat_readable_def keys hb)
  have stamp: "?pf ''100.5'' = Some (201 / 2)"
    by simp
  have timeout: "heartbeat_timeout ?r = 30"
    by (simp add: register_worker_def new_registry_def Let_def)
  have fresh: "110 - 201 / 2 < real_of_int (heartbeat_timeout ?r)"
    by (simp add: timeout)
  show ?thesis
    using heartbeat_of_unregistered_worker [OF no_record readable stamp fresh] no_record
    by (simp add: Let_def)
qed


section \<open>Filter construction\<close>

text \<open>
  C8, as amended. The constructors validate their parameter with the comparison
  \<open>parameter < 0\<close> and nothing else. For every value of the parameter:
  constructing a brightness filter raises \<open>ValueError\<close> if and only if
  \<open>factor < 0\<close> holds, that is for an \<open>int\<close> or a finite \<open>float\<close> below zero
  and for \<open>-inf\<close>; it raises \<open>TypeError\<close> when the factor does not compare with
  a number (a string, \<open>None\<close>, a list, a dictionary); and it succeeds otherwise,
  so for every number from zero on, for \<open>inf\<close>, for a boolean and for \<open>nan\<close>
  (for which \<open>factor < 0\<close> is false), with a warning exactly when
  \<open>factor > 5.0\<close> holds. Constructing a blur filter raises and succeeds on the
  same values, without a warning. The default factor is 1.5 and the default
  radius is 2.
\<close>

theorem filter_construction_checks:
  "BrightnessFilter_init v =
     (case v of
        PInt n \<Rightarrow> if n < 0 then Inl ValueError else Inr (5 < n, BrightnessFilter (PInt n))
      | PFloat x \<Rightarrow> if x < 0 then Inl ValueError else Inr (5 < x, BrightnessFilter (PFloat x))
      | PInf \<Rightarrow> Inr (True, BrightnessFilter PInf)
      | PNegInf \<Rightarrow> Inl ValueError
      | PNaN \<Rightarrow> Inr (False, BrightnessFilter PNaN)
      | PBool b \<Rightarrow> Inr (False, BrightnessFilter (PBool b))
      | PStr s \<Rightarrow> Inl TypeError
      | PNone \<Rightarrow> Inl TypeError
      | PContainer \<Rightarrow> Inl TypeError) \<and>
   BlurFilter_init v =
     (case v of
        PInt n \<Rightarrow> if n < 0 then Inl ValueError else Inr (BlurFilter (PInt n))
      | PFloat x \<Rightarrow> if x < 0 then Inl ValueError else Inr (BlurFilter (PFloat x))
      | PInf \<Rightarrow> Inr (BlurFilter PInf)
      | PNegInf \<Rightarrow> Inl ValueError
      | PNaN \<Rightarrow> Inr (BlurFilter PNaN)
      | PBool b \<Rightarrow> Inr (BlurFilter (PBool b))
      | PStr s \<Rightarrow> Inl TypeError
      | PNone \<Rightarrow> Inl TypeError
      | PContainer \<Rightarrow> Inl TypeError) \<and>
   (BrightnessFilter_init v = Inl ValueError \<longleftrightarrow> py_lt v 0 = Inr True) \<and>
   (BlurFilter_init v = Inl ValueError \<longleftrightarrow> py_lt v 0 = Inr True) \<and>
   ((\<exists>w. BrightnessFilter_init v = Inr (w, BrightnessFilter v)) \<longleftrightarrow> py_lt v 0 = Inr False) \<and>
   (BlurFilter_init v = Inr (BlurFilter v) \<longleftrightarrow> py_lt v 0 = Inr False) \<and>
   (BrightnessFilter_init v = Inr (True, BrightnessFilter v) \<longleftrightarrow>
      py_lt v 0 = Inr False \<and> py_gt v 5 = Inr True) \<and>
   BrightnessFilter_default = Inr (False, BrightnessFilter (PFloat (3 / 2))) \<and>
   BlurFilter_default = Inr (BlurFilter (PInt 2))"
  unfolding BrightnessFilter_init_def BrightnessFilter_default_def BlurFilter_init_def
    BlurFilter_default_def py_lt_def py_gt_def
  by (cases v) auto

text \<open>
  C8, as stated, fails at the factor 0: the filter is constructed, without a
  warning, although 0 is not greater than 0. It fails at \<open>nan\<close> in the same
  way.
\<close>

theorem brightness_zero_is_constructed:
  "BrightnessFilter_init (PFloat 0) = Inr (False, BrightnessFilter (PFloat 0)) \<and>
   \<not> (0 :: real) < 0 \<and> py_gt (PFloat 0) 0 = Inr False \<and>
   BrightnessFilter_init PNaN = Inr (False, BrightnessFilter PNaN) \<and>
   py_gt PNaN 0 = Inr False"
  by (simp add: BrightnessFilter_init_def py_lt_def py_gt_def)


section \<open>The pipeline walks its filters\<close>

lemma count_status_simps [simp]:
  "count_status st [] = 0"
  "count_status ''success'' (success_entry i n # es) = Suc (count_status ''success'' es)"
  "count_status ''failed'' (success_entry i n # es) = count_status ''failed'' es"
  "count_status ''failed'' (failed_entry i n e # es) = Suc (count_status ''failed'' es)"
  "count_status ''success'' (failed_entry i n e # es) = count_status ''success'' es"
  by (simp_all add: count_status_def success_entry_def failed_entry_def)

lemma apply_loop_walk:
  "apply_loop lib p output_dir i fs s =
     s\<lparr>result_image :=
         fst (spec_walk lib (stop_on_error p) (save_step lib p output_dir) i fs (result_image s)),
       stats_so_far := stats_so_far s @
         snd (spec_walk lib (stop_on_error p) (save_step lib p output_dir) i fs (result_image s)),
       successful_count := successful_count s + count_status ''success''
         (snd (spec_walk lib (stop_on_error p) (save_step lib p output_dir) i fs (result_image s))),
       failed_count := failed_count s + count_status ''failed''
         (snd (spec_walk lib (stop_on_error p) (save_step lib p output_dir) i fs (result_image s)))\<rparr>"
proof (induction fs arbitrary: i s)
  case Nil
  show ?case by simp
next
  case (Cons f fs)
  show ?case
  proof (cases "filter_apply lib f (result_image s)")
    case (Inl e)
    then show ?thesis
      by (cases "stop_on_error p") (simp_all add: Cons.IH Let_def split: prod.split)
  next
    case (Inr img)
    show ?thesis
    proof (cases "save_step lib p output_dir i (class_name f) img")
      case None
      then show ?thesis
        using Inr by (simp add: Cons.IH Let_def split: prod.split)
    next
      case (Some e)
      then show ?thesis
        using Inr by (cases "stop_on_error p") (simp_all add: Cons.IH Let_def split: prod.split)
    qed
  qed
qed

lemma FilterPipeline_init_Inr:
  "FilterPipeline_init fs stop save = Inr p \<Longrightarrow>
     fs \<noteq> [] \<and> filters p = fs \<and> stop_on_error p = stop \<and> save_intermediate p = save"
  by (auto simp: FilterPipeline_init_def split: if_splits)

lemma pipeline_apply_walk:
  "pipeline_apply lib p img output_dir =
     (let w = spec_walk lib (stop_on_error p) (save_step lib p output_dir) 0 (filters p) img;
          n = count_status ''success'' (snd w)
      in (if n = 0 then None else Some (fst w),
          \<lparr>filter_stats = snd w, successful = n, failed = count_status ''failed'' (snd w),
           total_filters = length (filters p)\<rparr>))"
  by (simp add: pipeline_apply_def apply_loop_walk Let_def)

text \<open>
  C7. For every pipeline that was constructed (so it is not empty) and every
  image, \<open>apply\<close> returns what the walk in the specification's words gives:
  the filters in order, a failed entry for a filter that raises, no further step
  after it under \<open>stop_on_error\<close> and the unchanged working image otherwise;
  the counters are the numbers of success and failed entries; and the returned
  image is \<open>None\<close> if and only if the number of successful steps is zero.
\<close>

theorem pipeline_apply_walks_filters:
  assumes "FilterPipeline_init fs stop save = Inr p"
  shows "pipeline_apply lib p img output_dir =
           (let w = spec_walk lib stop (save_step lib p output_dir) 0 fs img;
                n = count_status ''success'' (snd w)
            in (if n = 0 then None else Some (fst w),
                \<lparr>filter_stats = snd w, successful = n,
                 failed = count_status ''failed'' (snd w), total_filters = length fs\<rparr>)) \<and>
         (fst (pipeline_apply lib p img output_dir) = None \<longleftrightarrow>
            successful (snd (pipeline_apply lib p img output_dir)) = 0)"
proof -
  have p: "filters p = fs" "stop_on_error p = stop"
    using FilterPipeline_init_Inr [OF assms] by simp_all
  have none: "fst (pipeline_apply lib p img output_dir) = None \<longleftrightarrow>
      successful (snd (pipeline_apply lib p img output_dir)) = 0"
    by (simp add: pipeline_apply_def Let_def)
  show ?thesis
    using none pipeline_apply_walk [of lib p img output_dir] by (simp add: p)
qed

theorem pipeline_apply_walks_filters_witness:
  "(let p = \<lparr>filters = [GrayscaleFilter, EdgesFilter, BlurFilter (PInt 2)], stop_on_error = True, save_intermediate = False\<rparr>
   in FilterPipeline_init [GrayscaleFilter, EdgesFilter, BlurFilter (PInt 2)] True False = Inr p \<and>
      pipeline_apply example_pil p ''img'' None =
        (Some ''img-gray'',
         \<lparr>filter_stats = [success_entry 0 ''GrayscaleFilter'', failed_entry 1 ''EdgesFilter'' ''cannot filter palette images''],
          successful = 1, failed = 1, total_filters = 3\<rparr>))"
proof -
  let ?fs = "[GrayscaleFilter, EdgesFilter, BlurFilter (PInt 2)]"
  let ?p = "\<lparr>filters = ?fs, stop_on_error = True, save_intermediate = False\<rparr>"
  have init: "FilterPipeline_init ?fs True False = Inr ?p"
    by (simp add: FilterPipeline_init_def)
  show ?thesis
    using pipeline_apply_walks_filters [OF init, where lib = example_pil and img = "''img''" and output_dir = None] init
    by (simp add: Let_def example_pil_def save_step_def)
qed


section \<open>A pipeline from descriptors is the composition of its filters\<close>

lemma walk_compose:
  assumes "\<forall>i n im. save i n im = None"
  shows "compose_apply lib fs img = Inr r \<longleftrightarrow>
     fst (spec_walk lib True save i fs img) = r \<and>
     count_status ''failed'' (snd (spec_walk lib True save i fs img)) = 0"
proof (induction fs arbitrary: i img)
  case Nil
  show ?case by auto
next
  case (Cons f fs)
  show ?case
  proof (cases "filter_apply lib f img")
    case (Inl e)
    then show ?thesis by simp
  next
    case (Inr img')
    then show ?thesis
      using Cons.IH [of img' "i + 1"] by (simp add: assms split_def Let_def)
  qed
qed

lemma walk_all_success:
  assumes "\<forall>i n im. save i n im = None"
  shows "count_status ''failed'' (snd (spec_walk lib True save i fs img)) = 0 \<Longrightarrow>
     count_status ''success'' (snd (spec_walk lib True save i fs img)) = length fs"
proof (induction fs arbitrary: i img)
  case Nil
  show ?case by simp
next
  case (Cons f fs)
  show ?case
  proof (cases "filter_apply lib f img")
    case (Inl e)
    then show ?thesis using Cons.prems by simp
  next
    case (Inr img')
    then show ?thesis
      using Cons.IH [of "i + 1" img'] Cons.prems by (simp add: assms split_def Let_def)
  qed
qed

lemma create_loop_all2:
  "create_loop acc configs = Inr fs \<Longrightarrow>
     \<exists>new. fs = acc @ new \<and> list_all2 (\<lambda>c f. create_from_config c = Inr f) configs new"
proof (induction configs arbitrary: acc)
  case Nil
  then show ?case by simp
next
  case (Cons c configs)
  then obtain f where f: "create_from_config c = Inr f"
    and rest: "create_loop (acc @ [f]) configs = Inr fs"
    by (auto split: sum.splits)
  obtain new where "fs = (acc @ [f]) @ new"
    and "list_all2 (\<lambda>c f. create_from_config c = Inr f) configs new"
    using Cons.IH [OF rest] by blast
  then show ?case
    using f by (intro exI [of _ "f # new"]) simp
qed

text \<open>
  C9. When \<open>create_pipeline\<close> builds a pipeline from descriptors with
  \<open>stop_on_error=True\<close>, its filters are the ones \<open>create_from_config\<close>
  makes of the descriptors, in order, and for every image: applying these filters
  one after the other yields the image \<open>r\<close> if and only if the pipeline returns
  \<open>r\<close> with no failed step.
\<close>

theorem create_pipeline_apply_is_composition:
  assumes "create_pipeline configs True False = Inr p"
  shows "list_all2 (\<lambda>c f. create_from_config c = Inr f) configs (filters p) \<and>
         (compose_apply lib (filters p) img = Inr r \<longleftrightarrow>
            fst (pipeline_apply lib p img output_dir) = Some r \<and>
            failed (snd (pipeline_apply lib p img output_dir)) = 0)"
proof -
  obtain fs where loop: "create_loop [] configs = Inr fs"
    and init: "FilterPipeline_init fs True False = Inr p"
    using assms by (auto simp: create_pipeline_def split: sum.splits)
  have p: "fs \<noteq> []" "filters p = fs" "stop_on_error p = True" "save_intermediate p = False"
    using FilterPipeline_init_Inr [OF init] by simp_all
  have created: "list_all2 (\<lambda>c f. create_from_config c = Inr f) configs (filters p)"
    using create_loop_all2 [OF loop] p by simp
  have saves: "\<forall>i n im. save_step lib p output_dir i n im = None"
    by (simp add: save_step_def p split: option.split)
  let ?w = "spec_walk lib True (save_step lib p output_dir) 0 fs img"
  have app: "pipeline_apply lib p img output_dir =
      (if count_status ''success'' (snd ?w) = 0 then None else Some (fst ?w),
       \<lparr>filter_stats = snd ?w, successful = count_status ''success'' (snd ?w),
        failed = count_status ''failed'' (snd ?w), total_filters = length fs\<rparr>)"
    using pipeline_apply_walk [of lib p img output_dir] by (simp add: p Let_def)
  have "compose_apply lib fs img = Inr r \<longleftrightarrow>
      fst (pipeline_apply lib p img output_dir) = Some r \<and>
      failed (snd (pipeline_apply lib p img output_dir)) = 0"
  proof (cases "count_status ''failed'' (snd ?w) = 0")
    case True
    then have "count_status ''success'' (snd ?w) = length fs"
      by (rule walk_all_success [OF saves])
    then have "count_status ''success'' (snd ?w) \<noteq> 0"
      using p(1) by simp
    then show ?thesis
      using True walk_compose [OF saves, where lib = lib and fs = fs and img = img and r = r and i = 0] by (simp add: app)
  next
    case False
    then show ?thesis
      using walk_compose [OF saves, where lib = lib and fs = fs and img = img and r = r and i = 0] by (simp add: app)
  qed
  then show ?thesis
    using created by (simp add: p)
qed

theorem create_pipeline_apply_is_composition_witness:
  "(let configs = [[(''type'', PStr ''Grayscale'')], [(''type'', PStr ''blur''), (''radius'', PInt 3)]];
       p = \<lparr>filters = [GrayscaleFilter, BlurFilter (PInt 3)], stop_on_error = True, save_intermediate = False\<rparr>
   in create_pipeline configs True False = Inr p \<and>
      compose_apply example_pil (filters p) ''img'' = Inr ''img-gray-blur'' \<and>
      fst (pipeline_apply example_pil p ''img'' None) = Some ''img-gray-blur'' \<and>
      failed (snd (pipeline_apply example_pil p ''img'' None)) = 0)"
proof -
  let ?configs = "[[(''type'', PStr ''Grayscale'')], [(''type'', PStr ''blur''), (''radius'', PInt 3)]]"
  let ?p = "\<lparr>filters = [GrayscaleFilter, BlurFilter (PInt 3)], stop_on_error = True, save_intermediate = False\<rparr>"
  have cp: "create_pipeline ?configs True False = Inr ?p"
    by code_simp
  have comp: "compose_apply example_pil (filters ?p) ''img'' = Inr ''img-gray-blur''"
    by (simp add: example_pil_def)
  show ?thesis
    using create_pipeline_apply_is_composition [OF cp, where lib = example_pil and img = "''img''" and r = "''img-gray-blur''" and output_dir = None] cp comp
    by (simp add: Let_def)
qed

end
